theory Spec2Isabelle
  imports Complex_Main "HOL-Library.Sublist"
begin

text \<open>
  A verification of the retry proxy for Durable Objects. The source file
  \<^verbatim>\<open>retry-proxy.ts\<close> holds two renditions of the module: the first (lines 1 to 184)
  retries when the built-in rule or the caller's predicate accepts the error and requests
  the next handle before it waits; the second (lines 185 to 360) lets a predicate the
  caller supplies stand in for the built-in rule and requests the next handle when the next
  attempt starts. Both are modelled; a name ending in \<open>2\<close> belongs to the second.
  The options \<^verbatim>\<open>maxAttempts\<close>, \<^verbatim>\<open>baseDelayMs\<close> and \<^verbatim>\<open>maxDelayMs\<close> are integers, as
  their descriptions have them; the delay is computed in double precision, as the code
  computes it.
\<close>

section \<open>Values that are thrown and inspected\<close>

text \<open>
  The classifier of \<^verbatim>\<open>retry-proxy.ts\<close> receives \<^verbatim>\<open>err: unknown\<close> and looks at
  three things only: the property \<^verbatim>\<open>retryable\<close>, the property \<^verbatim>\<open>overloaded\<close>
  (both read through \<^verbatim>\<open>e?.name\<close> and passed to \<^verbatim>\<open>Boolean\<close>) and \<^verbatim>\<open>String(err)\<close>.
  A property value is any JavaScript value; what \<^verbatim>\<open>Boolean\<close> makes of it depends on its
  kind, so the kinds are kept apart.
\<close>

datatype jsval =
    JUndefined
  | JNull
  | JBool bool
  | JNum int
  | JNaN
  | JStr string
  | JObject

text \<open>\<^verbatim>\<open>Boolean(v)\<close>: the falsy values are undefined, null, false, 0, NaN and the empty string.\<close>

fun Boolean :: "jsval \<Rightarrow> bool" where
  "Boolean JUndefined = False"
| "Boolean JNull = False"
| "Boolean (JBool b) = b"
| "Boolean (JNum n) = (n \<noteq> 0)"
| "Boolean JNaN = False"
| "Boolean (JStr s) = (s \<noteq> [])"
| "Boolean JObject = True"

text \<open>
  A thrown value is \<^verbatim>\<open>undefined\<close>, \<^verbatim>\<open>null\<close>, or a value with own or inherited
  properties (an association list, first entry wins) and the text \<^verbatim>\<open>String\<close> renders it to.
  A thrown primitive such as a string has no properties of its own and renders to itself.
  Property reads and the rendering are taken to complete without throwing themselves.
\<close>

datatype thrown =
    ThrownUndefined
  | ThrownNull
  | Thrown (props: "(string \<times> jsval) list") (rendering: string)

text \<open>\<^verbatim>\<open>e?.name\<close>: undefined on undefined and null, the property's value otherwise.\<close>

fun optChain :: "thrown \<Rightarrow> string \<Rightarrow> jsval" where
  "optChain ThrownUndefined name = JUndefined"
| "optChain ThrownNull name = JUndefined"
| "optChain (Thrown ps r) name = (case map_of ps name of None \<Rightarrow> JUndefined | Some v \<Rightarrow> v)"

text \<open>\<^verbatim>\<open>String(err)\<close>.\<close>

fun String :: "thrown \<Rightarrow> string" where
  "String ThrownUndefined = ''undefined''"
| "String ThrownNull = ''null''"
| "String (Thrown ps r) = r"

text \<open>
  \<^verbatim>\<open>msg.includes(needle)\<close>: scan the positions of \<^verbatim>\<open>msg\<close> from the left and test
  whether \<^verbatim>\<open>needle\<close> starts there.
\<close>

fun includes_str :: "string \<Rightarrow> string \<Rightarrow> bool" where
  "includes_str [] needle = (needle = [])"
| "includes_str (c # cs) needle = (prefix needle (c # cs) \<or> includes_str cs needle)"

section \<open>Error Classifier\<close>

text \<open>
  \<^verbatim>\<open>function isErrorRetryable(err: unknown): boolean\<close>, lines 33 to 37 (and, letter for
  letter, lines 217 to 223 of the second rendition of the module).
\<close>

definition isErrorRetryable :: "thrown \<Rightarrow> bool" where
  "isErrorRetryable err =
     (let e = err;
          msg = String err
      in Boolean (optChain e ''retryable'') \<and> \<not> Boolean (optChain e ''overloaded'')
         \<and> \<not> includes_str msg ''Durable Object is overloaded'')"

section \<open>Backoff Calculator\<close>

text \<open>
  The numbers \<^verbatim>\<open>jitterBackoff\<close> computes with are double-precision Numbers. Those that
  matter here are the integers, the two infinities and \<^verbatim>\<open>NaN\<close>: \<^verbatim>\<open>2 ** attempt\<close> is
  \<^verbatim>\<open>Infinity\<close> from attempt 1024 on, \<^verbatim>\<open>Infinity * 0\<close> is \<^verbatim>\<open>NaN\<close>, and
  \<^verbatim>\<open>Math.min\<close> and \<^verbatim>\<open>Math.floor\<close> pass \<^verbatim>\<open>NaN\<close> on.
\<close>

datatype number = Finite int | PosInfinity | NegInfinity | NaN

text \<open>
  What \<^verbatim>\<open>Math.random()\<close> returns is a Number that is at least 0 and below 1. Every such
  Number is \<open>significand / 2 ^ scale\<close> for a significand of at most 53 bits and a scale
  of at most 1074.
\<close>

record dyadic =
  significand :: nat
  scale :: nat

definition isMathRandom :: "dyadic \<Rightarrow> bool" where
  "isMathRandom d \<longleftrightarrow>
     significand d < 2 ^ 53 \<and> significand d < 2 ^ scale d \<and> scale d \<le> 1074"

text \<open>The number of binary digits of a natural number.\<close>

fun bitLength :: "nat \<Rightarrow> nat" where
  "bitLength n = (if n = 0 then 0 else Suc (bitLength (n div 2)))"

declare bitLength.simps [simp del]

text \<open>
  The integers that are Numbers: at most 53 significant binary digits, and a magnitude
  below \<open>2 ^ 1024\<close>. The options \<^verbatim>\<open>baseDelayMs\<close> and \<^verbatim>\<open>maxDelayMs\<close> are such integers.
\<close>

definition twoTo1024 :: int where
  "twoTo1024 = 2 ^ 1024"

definition isIntegerNumber :: "int \<Rightarrow> bool" where
  "isIntegerNumber n \<longleftrightarrow>
     (let k = nat \<bar>n\<bar> in k mod 2 ^ (bitLength k - 53) = 0) \<and> \<bar>n\<bar> < twoTo1024"

text \<open>
  Rounding to 53 significant binary digits, to the nearest, a tie to the even neighbour:
  what a double-precision multiplication does to its exact product. Scaling by a power of
  two does not change which digits are kept, so the product of \<open>m / 2 ^ j\<close> and an
  integer \<open>c\<close> is the rounded \<open>m * c\<close> over \<open>2 ^ j\<close>. (Below \<open>2 ^ -1022\<close> a
  double keeps fewer digits, but there the exact product is a double already and the floor
  taken afterwards is the same.)
\<close>

definition roundToDouble :: "nat \<Rightarrow> nat" where
  "roundToDouble n =
     (let s = bitLength n - 53
      in if s = 0 then n
         else (let q = n div 2 ^ s; r = n mod 2 ^ s; half = 2 ^ (s - 1)
               in (if r > half \<or> (r = half \<and> odd q) then q + 1 else q) * 2 ^ s))"

text \<open>\<^verbatim>\<open>2 ** attempt\<close> for an attempt counter, which is a natural number.\<close>

definition twoToThe :: "nat \<Rightarrow> number" where
  "twoToThe attempt = (if attempt < 1024 then Finite (2 ^ attempt) else PosInfinity)"

text \<open>
  \<^verbatim>\<open>x * baseDelayMs\<close> for \<open>x\<close> a power of two or an infinity: the product of a power
  of two and a Number is exact unless it overflows.
\<close>

definition timesNumber :: "number \<Rightarrow> int \<Rightarrow> number" where
  "timesNumber x b =
     (case x of
        Finite p \<Rightarrow>
          (if \<bar>p * b\<bar> < twoTo1024 then Finite (p * b)
           else if 0 < p * b then PosInfinity else NegInfinity)
      | PosInfinity \<Rightarrow> (if 0 < b then PosInfinity else if b < 0 then NegInfinity else NaN)
      | NegInfinity \<Rightarrow> (if 0 < b then NegInfinity else if b < 0 then PosInfinity else NaN)
      | NaN \<Rightarrow> NaN)"

text \<open>\<^verbatim>\<open>Math.min(x, maxDelayMs)\<close>.\<close>

definition Math_min :: "number \<Rightarrow> int \<Rightarrow> number" where
  "Math_min x m =
     (case x of
        Finite c \<Rightarrow> Finite (min c m)
      | PosInfinity \<Rightarrow> Finite m
      | NegInfinity \<Rightarrow> NegInfinity
      | NaN \<Rightarrow> NaN)"

text \<open>
  \<^verbatim>\<open>Math.floor(Math.random() * x)\<close>: the product is rounded as a double, then floored
  (towards minus infinity; \<^verbatim>\<open>0 * Infinity\<close> is \<^verbatim>\<open>NaN\<close>; minus zero is zero here).
\<close>

definition floorOfRandomTimes :: "dyadic \<Rightarrow> number \<Rightarrow> number" where
  "floorOfRandomTimes rnd x =
     (case x of
        Finite c \<Rightarrow>
          (let product = roundToDouble (significand rnd * nat \<bar>c\<bar>)
           in if 0 \<le> c then Finite (int (product div 2 ^ scale rnd))
              else Finite (- int ((product + 2 ^ scale rnd - 1) div 2 ^ scale rnd)))
      | PosInfinity \<Rightarrow> (if significand rnd = 0 then NaN else PosInfinity)
      | NegInfinity \<Rightarrow> (if significand rnd = 0 then NaN else NegInfinity)
      | NaN \<Rightarrow> NaN)"

text \<open>
  \<^verbatim>\<open>function jitterBackoff(attempt, baseDelayMs, maxDelayMs)\<close>, lines 44 to 47 (and 230
  to 233). The value of \<^verbatim>\<open>Math.random()\<close> is the first argument. The attempt counter is
  a natural number: the engine starts it at 1 and only increments it.
\<close>

definition jitterBackoff :: "dyadic \<Rightarrow> nat \<Rightarrow> int \<Rightarrow> int \<Rightarrow> number" where
  "jitterBackoff rnd attempt baseDelayMs maxDelayMs =
     (let attemptUpperBoundMs = Math_min (timesNumber (twoToThe attempt) baseDelayMs) maxDelayMs
      in floorOfRandomTimes rnd attemptUpperBoundMs)"

section \<open>Configuration\<close>

text \<open>
  \<^verbatim>\<open>interface RetryOptions\<close>, lines 11 to 20: what a caller may pass to
  \<^verbatim>\<open>withRetry\<close>, every field optional.
\<close>

record RetryOptions =
  maxAttempts_given :: "int option"
  baseDelayMs_given :: "int option"
  maxDelayMs_given :: "int option"
  isRetryable_given :: "(thrown \<Rightarrow> bool) option"

text \<open>
  The options \<^verbatim>\<open>createStubProxy\<close> works with: the three numbers are always present; the
  type of the predicate field differs between the two renditions of the module (optional in
  the first, line 57; always present in the second, line 243) and is the parameter \<open>'p\<close>.
\<close>

record 'p opts =
  maxAttempts :: int
  baseDelayMs :: int
  maxDelayMs :: int
  isRetryable :: 'p

text \<open>\<^verbatim>\<open>const DEFAULT_OPTIONS\<close>, lines 22 to 26; it has no predicate field.\<close>

definition DEFAULT_OPTIONS :: "unit opts" where
  "DEFAULT_OPTIONS = \<lparr>maxAttempts = 3, baseDelayMs = 100, maxDelayMs = 3000, isRetryable = ()\<rparr>"

text \<open>
  \<^verbatim>\<open>const opts = { ...DEFAULT_OPTIONS, ...options, isRetryable: options?.isRetryable }\<close>,
  lines 142 to 146 of \<^verbatim>\<open>withRetry\<close>. A field the caller left out keeps its default.
  (A field that is present with the value \<^verbatim>\<open>undefined\<close> is not modelled.) Nothing is
  checked: whatever number the caller gives is taken.
\<close>

definition withRetry_opts :: "RetryOptions option \<Rightarrow> (thrown \<Rightarrow> bool) option opts" where
  "withRetry_opts options =
     \<lparr>maxAttempts = (case Option.bind options maxAttempts_given of
                        None \<Rightarrow> maxAttempts DEFAULT_OPTIONS | Some n \<Rightarrow> n),
      baseDelayMs = (case Option.bind options baseDelayMs_given of
                        None \<Rightarrow> baseDelayMs DEFAULT_OPTIONS | Some n \<Rightarrow> n),
      maxDelayMs = (case Option.bind options maxDelayMs_given of
                        None \<Rightarrow> maxDelayMs DEFAULT_OPTIONS | Some n \<Rightarrow> n),
      isRetryable = Option.bind options isRetryable_given\<rparr>"

text \<open>
  The second rendition, lines 318 to 322:
  \<^verbatim>\<open>isRetryable: options?.isRetryable ?? isErrorRetryable\<close>. A predicate the caller
  supplies stands in for the built-in rule.
\<close>

definition withRetry_opts2 :: "RetryOptions option \<Rightarrow> (thrown \<Rightarrow> bool) opts" where
  "withRetry_opts2 options =
     \<lparr>maxAttempts = (case Option.bind options maxAttempts_given of
                        None \<Rightarrow> maxAttempts DEFAULT_OPTIONS | Some n \<Rightarrow> n),
      baseDelayMs = (case Option.bind options baseDelayMs_given of
                        None \<Rightarrow> baseDelayMs DEFAULT_OPTIONS | Some n \<Rightarrow> n),
      maxDelayMs = (case Option.bind options maxDelayMs_given of
                        None \<Rightarrow> maxDelayMs DEFAULT_OPTIONS | Some n \<Rightarrow> n),
      isRetryable = (case Option.bind options isRetryable_given of
                        None \<Rightarrow> isErrorRetryable | Some p \<Rightarrow> p)\<rparr>"

section \<open>The world a call runs in\<close>

text \<open>
  One logical call is a sequential computation: every \<^verbatim>\<open>await\<close> is a point where the
  call waits for its own result. The collaborators are functions on a world \<open>'w\<close> that
  the call threads through:
  \<^item> \<open>getStub\<close> is the \<^verbatim>\<open>StubGetter\<close> closure (\<^verbatim>\<open>() => target.get(id)\<close> and its
    siblings); it hands out a handle, as it did when the proxy was made;
  \<^item> \<open>rpc h prop args\<close> is \<^verbatim>\<open>await h[prop](...args)\<close>: it resolves with a value (\<open>Inr\<close>)
    or rejects with whatever was thrown (\<open>Inl\<close>);
  \<^item> \<open>random\<close> is \<^verbatim>\<open>Math.random()\<close>.
  The getter and the caller's predicate are taken to return; a getter or a predicate that
  throws is outside the model. Calls that run concurrently share nothing in the module:
  \<^verbatim>\<open>attempt\<close>, \<^verbatim>\<open>lastError\<close> and \<^verbatim>\<open>currentStub\<close> are local to one call.
\<close>

record ('w, 'h, 'a, 'v) env =
  getStub :: "'w \<Rightarrow> 'h \<times> 'w"
  rpc :: "'h \<Rightarrow> string \<Rightarrow> 'a \<Rightarrow> 'w \<Rightarrow> (thrown + 'v) \<times> 'w"
  random :: "'w \<Rightarrow> dyadic \<times> 'w"

text \<open>
  What a call does to its collaborators is recorded, in order: each invocation of the
  underlying method with its handle, method name, arguments and outcome; each handle the
  getter returned; each \<^verbatim>\<open>scheduler.wait(delay)\<close>.
\<close>

datatype ('h, 'a, 'v) event =
    Invoked 'h string 'a "thrown + 'v"
  | Acquired 'h
  | Waited number

type_synonym ('w, 'h, 'a, 'v) st = "'w \<times> ('h, 'a, 'v) event list"

definition invoke ::
  "('w, 'h, 'a, 'v) env \<Rightarrow> 'h \<Rightarrow> string \<Rightarrow> 'a \<Rightarrow> ('w, 'h, 'a, 'v) st
     \<Rightarrow> (thrown + 'v) \<times> ('w, 'h, 'a, 'v) st" where
  "invoke env h prop args s =
     (case rpc env h prop args (fst s) of
        (outcome, w') \<Rightarrow> (outcome, (w', snd s @ [Invoked h prop args outcome])))"

definition acquire ::
  "('w, 'h, 'a, 'v) env \<Rightarrow> ('w, 'h, 'a, 'v) st \<Rightarrow> 'h \<times> ('w, 'h, 'a, 'v) st" where
  "acquire env s =
     (case getStub env (fst s) of (h, w') \<Rightarrow> (h, (w', snd s @ [Acquired h])))"

definition draw ::
  "('w, 'h, 'a, 'v) env \<Rightarrow> ('w, 'h, 'a, 'v) st \<Rightarrow> dyadic \<times> ('w, 'h, 'a, 'v) st" where
  "draw env s = (case random env (fst s) of (r, w') \<Rightarrow> (r, (w', snd s)))"

definition scheduler_wait :: "number \<Rightarrow> ('w, 'h, 'a, 'v) st \<Rightarrow> ('w, 'h, 'a, 'v) st" where
  "scheduler_wait delay s = (fst s, snd s @ [Waited delay])"

section \<open>Retry Engine\<close>

text \<open>
  The \<^verbatim>\<open>while (attempt <= options.maxAttempts)\<close> loop of the function that
  \<^verbatim>\<open>createStubProxy\<close> returns for a method, lines 80 to 118. The loop variables
  \<^verbatim>\<open>attempt\<close>, \<^verbatim>\<open>lastError\<close> and \<^verbatim>\<open>currentStub\<close> are arguments. A \<^verbatim>\<open>return\<close> ends
  with \<open>Inr\<close>, a \<^verbatim>\<open>throw\<close> with \<open>Inl\<close>; \<^verbatim>\<open>break\<close> leaves the loop for
  \<^verbatim>\<open>throw lastError\<close> at line 118, and \<^verbatim>\<open>lastError\<close> is \<^verbatim>\<open>err\<close> there.
  The chain \<^verbatim>\<open>if (isErrorRetryable(err)) {} else if (options.isRetryable && ...) {} else { throw err; }\<close>
  of lines 90 to 98 yields \<open>Some err\<close> where it throws and \<open>None\<close> where it falls through
  to the retry logic.
\<close>

function attemptLoop ::
  "('w, 'h, 'a, 'v) env \<Rightarrow> (thrown \<Rightarrow> bool) option opts \<Rightarrow> string \<Rightarrow> 'a
     \<Rightarrow> nat \<Rightarrow> thrown \<Rightarrow> 'h \<Rightarrow> ('w, 'h, 'a, 'v) st
     \<Rightarrow> (thrown + 'v) \<times> ('w, 'h, 'a, 'v) st" where
  "attemptLoop env options prop args attempt lastError currentStub s =
     (if int attempt \<le> maxAttempts options then
        (case invoke env currentStub prop args s of
           (Inr v, s1) \<Rightarrow> (Inr v, s1)
         | (Inl err, s1) \<Rightarrow>
             (case (if isErrorRetryable err then None
                    else if (case isRetryable options of None \<Rightarrow> False | Some p \<Rightarrow> p err) then None
                    else Some err) of
                Some thrownNow \<Rightarrow> (Inl thrownNow, s1)
              | None \<Rightarrow>
                  (if int attempt \<ge> maxAttempts options then (Inl err, s1)
                   else (case acquire env s1 of (freshStub, s2) \<Rightarrow>
                         (case draw env s2 of (rnd, s3) \<Rightarrow>
                            attemptLoop env options prop args (attempt + 1) err freshStub
                              (scheduler_wait
                                 (jitterBackoff rnd attempt (baseDelayMs options) (maxDelayMs options))
                                 s3))))))
      else (Inl lastError, s))"
  by pat_completeness auto
termination
  by (relation "measure (\<lambda>(env, options, prop, args, attempt, lastError, currentStub, s).
                  nat (maxAttempts options - int attempt))") auto

text \<open>
  \<^verbatim>\<open>async (...args) => { let attempt = 1; let lastError; let currentStub = target; ... }\<close>,
  lines 75 to 119: \<^verbatim>\<open>lastError\<close> starts out undefined.
\<close>

definition createStubProxy_call ::
  "('w, 'h, 'a, 'v) env \<Rightarrow> (thrown \<Rightarrow> bool) option opts \<Rightarrow> 'h \<Rightarrow> string \<Rightarrow> 'a
     \<Rightarrow> ('w, 'h, 'a, 'v) st \<Rightarrow> (thrown + 'v) \<times> ('w, 'h, 'a, 'v) st" where
  "createStubProxy_call env options target prop args s =
     attemptLoop env options prop args 1 ThrownUndefined target s"

text \<open>
  The loop of the second rendition, lines 265 to 292. The handle for an attempt is chosen
  inside the \<^verbatim>\<open>try\<close>: \<^verbatim>\<open>attempt === 1 ? target : getStub()\<close>; the predicate is called
  without a test for its presence; both exits on a failure are \<^verbatim>\<open>throw err\<close>.
\<close>

function attemptLoop2 ::
  "('w, 'h, 'a, 'v) env \<Rightarrow> (thrown \<Rightarrow> bool) opts \<Rightarrow> 'h \<Rightarrow> string \<Rightarrow> 'a
     \<Rightarrow> nat \<Rightarrow> thrown \<Rightarrow> ('w, 'h, 'a, 'v) st
     \<Rightarrow> (thrown + 'v) \<times> ('w, 'h, 'a, 'v) st" where
  "attemptLoop2 env options target prop args attempt lastError s =
     (if int attempt \<le> maxAttempts options then
        (case (if attempt = 1 then (target, s) else acquire env s) of (currentStub, s0) \<Rightarrow>
         (case invoke env currentStub prop args s0 of
            (Inr v, s1) \<Rightarrow> (Inr v, s1)
          | (Inl err, s1) \<Rightarrow>
              (if \<not> isRetryable options err then (Inl err, s1)
               else if int attempt \<ge> maxAttempts options then (Inl err, s1)
               else (case draw env s1 of (rnd, s2) \<Rightarrow>
                       attemptLoop2 env options target prop args (attempt + 1) err
                         (scheduler_wait
                            (jitterBackoff rnd attempt (baseDelayMs options) (maxDelayMs options))
                            s2)))))
      else (Inl lastError, s))"
  by pat_completeness auto
termination
  by (relation "measure (\<lambda>(env, options, target, prop, args, attempt, lastError, s).
                  nat (maxAttempts options - int attempt))") auto

definition createStubProxy_call2 ::
  "('w, 'h, 'a, 'v) env \<Rightarrow> (thrown \<Rightarrow> bool) opts \<Rightarrow> 'h \<Rightarrow> string \<Rightarrow> 'a
     \<Rightarrow> ('w, 'h, 'a, 'v) st \<Rightarrow> (thrown + 'v) \<times> ('w, 'h, 'a, 'v) st" where
  "createStubProxy_call2 env options target prop args s =
     attemptLoop2 env options target prop args 1 ThrownUndefined s"

section \<open>Call Interceptor and Namespace Wrapper\<close>

text \<open>
  A property key is a string or a symbol (\<^verbatim>\<open>typeof prop === 'symbol'\<close>). What a proxy's
  \<^verbatim>\<open>get\<close> trap needs to know of a member is whether \<^verbatim>\<open>typeof value\<close> is
  \<^verbatim>\<open>'function'\<close>; a member that is not a function carries its value (\<^verbatim>\<open>undefined\<close>
  for an absent property is one such value). An object is the function from keys to members
  that \<^verbatim>\<open>Reflect.get\<close> computes.
\<close>

datatype key = Named string | Symbol string

datatype 'd member = NonCallable 'd | Callable

text \<open>
  The \<^verbatim>\<open>get\<close> trap of the handle proxy, lines 62 to 120 (and 248 to 294): it returns
  the member itself, or the retrying function for the method of that name, which is
  \<open>createStubProxy_call\<close> (or \<open>createStubProxy_call2\<close>) at that name.
\<close>

datatype 'd stubAccess = Passed "'d member" | RetryingMethod string

definition createStubProxy_get :: "(key \<Rightarrow> 'd member) \<Rightarrow> key \<Rightarrow> 'd stubAccess" where
  "createStubProxy_get target prop =
     (let value = target prop
      in case value of
           NonCallable d \<Rightarrow> Passed value
         | Callable \<Rightarrow> (case prop of Symbol description \<Rightarrow> Passed value | Named name \<Rightarrow> RetryingMethod name))"

text \<open>
  The \<^verbatim>\<open>get\<close> trap of the namespace proxy, lines 149 to 182 (and 325 to 358): the member
  itself when it is not a function, one of three wrapping functions for \<^verbatim>\<open>get\<close>,
  \<^verbatim>\<open>getByName\<close> and \<^verbatim>\<open>jurisdiction\<close>, and \<^verbatim>\<open>value.bind(target)\<close> for every other
  function.
\<close>

datatype 'd nsAccess =
    NsPassed "'d member"
  | WrapGet
  | WrapGetByName
  | WrapJurisdiction
  | BoundTo key

definition withRetry_get :: "(key \<Rightarrow> 'd member) \<Rightarrow> key \<Rightarrow> 'd nsAccess" where
  "withRetry_get target prop =
     (let value = target prop
      in case value of
           NonCallable d \<Rightarrow> NsPassed value
         | Callable \<Rightarrow>
             if prop = Named ''get'' then WrapGet
             else if prop = Named ''getByName'' then WrapGetByName
             else if prop = Named ''jurisdiction'' then WrapJurisdiction
             else BoundTo prop)"

text \<open>
  The arguments of a call are a list, and an argument is a value or \<^verbatim>\<open>undefined\<close>
  (\<open>None\<close>). A function declared with parameters reads a parameter beyond the arguments
  it was called with as \<^verbatim>\<open>undefined\<close>.
\<close>

definition parameter :: "'x option list \<Rightarrow> nat \<Rightarrow> 'x option" where
  "parameter args i = (if i < length args then args ! i else None)"

text \<open>
  Calling what the namespace proxy returned. \<open>nsOp prop args\<close> is the underlying
  namespace's own function \<^verbatim>\<open>target[prop]\<close> applied to \<open>args\<close> with \<^verbatim>\<open>this = target\<close>;
  every call of it is recorded. The wrapping functions call the underlying operation once
  (\<^verbatim>\<open>createStubProxy\<close> calls its getter when it is made, line 59) and wrap what it
  returned: a handle proxy remembers the operation and arguments its getter repeats, a
  namespace proxy wraps the jurisdiction's namespace. The wrapping functions pass on their
  parameters and nothing else: \<^verbatim>\<open>target.get(id)\<close> has one argument,
  \<^verbatim>\<open>getByName(name, options)\<close> has two, \<^verbatim>\<open>target.jurisdiction(jurisdiction)\<close> has
  one, however many the wrapper was called with. A bound function
  (\<^verbatim>\<open>value.bind(target)\<close>) forwards the call with all its arguments. Calling a member
  that is not a function is a \<^verbatim>\<open>TypeError\<close>.
\<close>

datatype ('a, 'r) nsEvent = NsCalled key 'a 'r

datatype ('a, 'r) nsResult =
    Forwarded 'r
  | StubProxy 'r key 'a
  | NamespaceProxy 'r
  | NotAFunction

definition underlying_call ::
  "(key \<Rightarrow> 'a \<Rightarrow> 'w \<Rightarrow> 'r \<times> 'w) \<Rightarrow> key \<Rightarrow> 'a \<Rightarrow> 'w \<times> ('a, 'r) nsEvent list
     \<Rightarrow> 'r \<times> ('w \<times> ('a, 'r) nsEvent list)" where
  "underlying_call nsOp prop args s =
     (case nsOp prop args (fst s) of (r, w') \<Rightarrow> (r, (w', snd s @ [NsCalled prop args r])))"

definition withRetry_invoke ::
  "(key \<Rightarrow> 'x option list \<Rightarrow> 'w \<Rightarrow> 'r \<times> 'w) \<Rightarrow> (key \<Rightarrow> 'd member) \<Rightarrow> key \<Rightarrow> 'x option list
     \<Rightarrow> 'w \<times> ('x option list, 'r) nsEvent list
     \<Rightarrow> ('x option list, 'r) nsResult \<times> ('w \<times> ('x option list, 'r) nsEvent list)" where
  "withRetry_invoke nsOp target prop args s =
     (case withRetry_get target prop of
        NsPassed value \<Rightarrow> (NotAFunction, s)
      | WrapGet \<Rightarrow>
          (let id = parameter args 0
           in case underlying_call nsOp (Named ''get'') [id] s of
                (stub, s') \<Rightarrow> (StubProxy stub (Named ''get'') [id], s'))
      | WrapGetByName \<Rightarrow>
          (let name = parameter args 0; options = parameter args 1
           in case underlying_call nsOp (Named ''getByName'') [name, options] s of
                (stub, s') \<Rightarrow> (StubProxy stub (Named ''getByName'') [name, options], s'))
      | WrapJurisdiction \<Rightarrow>
          (let jurisdiction = parameter args 0
           in case underlying_call nsOp (Named ''jurisdiction'') [jurisdiction] s of
                (jurisdictionNamespace, s') \<Rightarrow> (NamespaceProxy jurisdictionNamespace, s'))
      | BoundTo k \<Rightarrow>
          (case underlying_call nsOp k args s of (r, s') \<Rightarrow> (Forwarded r, s')))"

section \<open>Reading the record of a call\<close>

text \<open>The outcomes of the invocations, in order.\<close>

primrec outcomesOf :: "('h, 'a, 'v) event list \<Rightarrow> (thrown + 'v) list" where
  "outcomesOf [] = []"
| "outcomesOf (ev # evs) =
     (case ev of Invoked h prop args outcome \<Rightarrow> outcome # outcomesOf evs | _ \<Rightarrow> outcomesOf evs)"

text \<open>The handle, method name and arguments of each invocation, in order.\<close>

primrec callsOf :: "('h, 'a, 'v) event list \<Rightarrow> ('h \<times> string \<times> 'a) list" where
  "callsOf [] = []"
| "callsOf (ev # evs) =
     (case ev of Invoked h prop args outcome \<Rightarrow> (h, prop, args) # callsOf evs | _ \<Rightarrow> callsOf evs)"

text \<open>The handles the getter returned, in order.\<close>

primrec acquiredOf :: "('h, 'a, 'v) event list \<Rightarrow> 'h list" where
  "acquiredOf [] = []"
| "acquiredOf (ev # evs) =
     (case ev of Acquired h \<Rightarrow> h # acquiredOf evs | _ \<Rightarrow> acquiredOf evs)"

text \<open>The record without its waits.\<close>

primrec withoutWaits :: "('h, 'a, 'v) event list \<Rightarrow> ('h, 'a, 'v) event list" where
  "withoutWaits [] = []"
| "withoutWaits (ev # evs) =
     (case ev of Waited delay \<Rightarrow> withoutWaits evs | _ \<Rightarrow> ev # withoutWaits evs)"

text \<open>
  \<open>handleChain h evs\<close>: the record \<open>evs\<close> (without waits) is an invocation on \<open>h\<close>,
  and, if anything follows, that invocation failed, the next entry is a handle \<open>g\<close> from the
  getter, and the rest is again such a chain, starting on \<open>g\<close>.
\<close>

fun handleChain :: "'h \<Rightarrow> ('h, 'a, 'v) event list \<Rightarrow> bool" where
  "handleChain h [Invoked h' prop args outcome] = (h' = h)"
| "handleChain h (Invoked h' prop args outcome # Acquired g # evs) =
     (h' = h \<and> isl outcome \<and> handleChain g evs)"
| "handleChain h evs = False"

text \<open>The decision of lines 90 to 98, and the one of line 275.\<close>

definition shouldRetry :: "(thrown \<Rightarrow> bool) option opts \<Rightarrow> thrown \<Rightarrow> bool" where
  "shouldRetry options err \<longleftrightarrow>
     isErrorRetryable err \<or> (case isRetryable options of None \<Rightarrow> False | Some p \<Rightarrow> p err)"

definition shouldRetry2 :: "(thrown \<Rightarrow> bool) opts \<Rightarrow> thrown \<Rightarrow> bool" where
  "shouldRetry2 options err \<longleftrightarrow> isRetryable options err"

text \<open>Lines 108 to 112: a handle from the getter, then the jittered wait.\<close>

definition afterFailure ::
  "('w, 'h, 'a, 'v) env \<Rightarrow> 'p opts \<Rightarrow> nat \<Rightarrow> ('w, 'h, 'a, 'v) st \<Rightarrow> 'h \<times> ('w, 'h, 'a, 'v) st" where
  "afterFailure env options attempt s1 =
     (case acquire env s1 of (freshStub, s2) \<Rightarrow>
      (case draw env s2 of (rnd, s3) \<Rightarrow>
         (freshStub, scheduler_wait
            (jitterBackoff rnd attempt (baseDelayMs options) (maxDelayMs options)) s3)))"

text \<open>Lines 285 and 286: the jittered wait alone.\<close>

definition afterFailure2 ::
  "('w, 'h, 'a, 'v) env \<Rightarrow> 'p opts \<Rightarrow> nat \<Rightarrow> ('w, 'h, 'a, 'v) st \<Rightarrow> ('w, 'h, 'a, 'v) st" where
  "afterFailure2 env options attempt s1 =
     (case draw env s1 of (rnd, s2) \<Rightarrow>
        scheduler_wait (jitterBackoff rnd attempt (baseDelayMs options) (maxDelayMs options)) s2)"

text \<open>Line 268: \<^verbatim>\<open>attempt === 1 ? target : getStub()\<close>.\<close>

definition stubFor ::
  "('w, 'h, 'a, 'v) env \<Rightarrow> 'h \<Rightarrow> nat \<Rightarrow> ('w, 'h, 'a, 'v) st \<Rightarrow> 'h \<times> ('w, 'h, 'a, 'v) st" where
  "stubFor env target attempt s = (if attempt = 1 then (target, s) else acquire env s)"

section \<open>The test suite's fixtures\<close>

text \<open>
  \<^verbatim>\<open>retry-proxy.test.ts\<close>, lines 4 to 22: the three kinds of error the tests throw
  (an \<^verbatim>\<open>Error\<close> renders as \<^verbatim>\<open>Error: \<close> followed by its message) and the fast
  delays. \<open>customRetryable\<close> is the predicate of line 173, which returns true for every
  error; \<open>neverRetryable\<close> returns false for every error. Two values that
  \<^verbatim>\<open>Math.random()\<close> may return come first: one half and three quarters.
\<close>

definition oneHalf :: dyadic where
  "oneHalf = \<lparr>significand = 1, scale = 1\<rparr>"

definition threeQuarters :: dyadic where
  "threeQuarters = \<lparr>significand = 3, scale = 2\<rparr>"

definition createRetryableError :: "string \<Rightarrow> thrown" where
  "createRetryableError message =
     Thrown [(''message'', JStr message), (''retryable'', JBool True)] (''Error: '' @ message)"

definition createOverloadedError :: "string \<Rightarrow> thrown" where
  "createOverloadedError message =
     Thrown [(''message'', JStr message), (''retryable'', JBool True), (''overloaded'', JBool True)]
       (''Error: '' @ message)"


definition FAST_RETRY :: RetryOptions where
  "FAST_RETRY = \<lparr>maxAttempts_given = None, baseDelayMs_given = Some 1,
                  maxDelayMs_given = Some 10, isRetryable_given = None\<rparr>"

definition customRetryable :: "thrown \<Rightarrow> bool" where
  "customRetryable err = True"

definition neverRetryable :: "thrown \<Rightarrow> bool" where
  "neverRetryable err = False"

text \<open>
  \<^verbatim>\<open>createMockNamespace\<close>, lines 28 to 49. The world is the pair of the number of
  calls \<^verbatim>\<open>mockMethod\<close> has received and \<^verbatim>\<open>stubCreationCount\<close>. A handle is the
  number of the \<^verbatim>\<open>createStub()\<close> call that made it. \<open>once\<close> are the outcomes queued
  with \<^verbatim>\<open>mockRejectedValueOnce\<close> and \<^verbatim>\<open>mockResolvedValueOnce\<close>, \<open>fallback\<close> the
  outcome set with \<^verbatim>\<open>mockResolvedValue\<close> or \<^verbatim>\<open>mockRejectedValue\<close>. Every draw of
  \<^verbatim>\<open>Math.random()\<close> is one half.
\<close>

definition createMockNamespace ::
  "(thrown + string) list \<Rightarrow> (thrown + string) \<Rightarrow> (nat \<times> nat, nat, string list, string) env" where
  "createMockNamespace once fallback =
     \<lparr>getStub = (\<lambda>w. (Suc (snd w), (fst w, Suc (snd w)))),
      rpc = (\<lambda>h prop args w.
               (if fst w < length once then once ! fst w else fallback, (Suc (fst w), snd w))),
      random = (\<lambda>w. (oneHalf, w))\<rparr>"

text \<open>
  The mock at the settings the tests give it: \<^verbatim>\<open>mockMethod\<close> rejecting once or twice
  before it resolves, rejecting always, or resolving always.
\<close>

abbreviation failsOnceThenSucceeds :: "(nat \<times> nat, nat, string list, string) env" where
  "failsOnceThenSucceeds \<equiv>
     createMockNamespace [Inl (createRetryableError ''transient-1'')] (Inr ''success'')"

abbreviation failsTwiceThenSucceeds :: "(nat \<times> nat, nat, string list, string) env" where
  "failsTwiceThenSucceeds \<equiv>
     createMockNamespace
       [Inl (createRetryableError ''transient-1''), Inl (createRetryableError ''transient-2'')]
       (Inr ''success'')"

abbreviation alwaysFails :: "(nat \<times> nat, nat, string list, string) env" where
  "alwaysFails \<equiv> createMockNamespace [] (Inl (createRetryableError ''always-fails''))"

abbreviation alwaysTransient :: "(nat \<times> nat, nat, string list, string) env" where
  "alwaysTransient \<equiv> createMockNamespace [] (Inl (createRetryableError ''transient''))"

abbreviation alwaysOverloaded :: "(nat \<times> nat, nat, string list, string) env" where
  "alwaysOverloaded \<equiv> createMockNamespace [] (Inl (createOverloadedError ''overloaded''))"

abbreviation alwaysSucceeds :: "(nat \<times> nat, nat, string list, string) env" where
  "alwaysSucceeds \<equiv> createMockNamespace [] (Inr ''success'')"

text \<open>The options the tests pass to \<^verbatim>\<open>withRetry\<close>.\<close>

abbreviation fastRetry :: "RetryOptions option" where
  "fastRetry \<equiv> Some FAST_RETRY"

abbreviation twoAttempts :: "RetryOptions option" where
  "twoAttempts \<equiv> Some (FAST_RETRY\<lparr>maxAttempts_given := Some 2\<rparr>)"

abbreviation predicateNever :: "RetryOptions option" where
  "predicateNever \<equiv> Some (FAST_RETRY\<lparr>isRetryable_given := Some neverRetryable\<rparr>)"

abbreviation twoAttemptsPredicateAlways :: "RetryOptions option" where
  "twoAttemptsPredicateAlways \<equiv>
     Some (FAST_RETRY\<lparr>maxAttempts_given := Some 2, isRetryable_given := Some customRetryable\<rparr>)"

section \<open>What a claim supposes of the collaborators\<close>

text \<open>
  What the underlying method does on the attempts of one call. An attempt begins with a
  handle and a world. When the attempt's invocation has rejected and the call goes on, the
  first rendition asks the getter for a handle (line 108) and then draws the random number
  of the delay (line 111); the next attempt begins with that handle, in the world these
  left. The second rendition draws first (line 285) and asks the getter when the next
  attempt begins (line 268).
\<close>

definition nextAttempt ::
  "('w, 'h, 'a, 'v) env \<Rightarrow> string \<Rightarrow> 'a \<Rightarrow> 'h \<times> 'w \<Rightarrow> 'h \<times> 'w" where
  "nextAttempt env prop args hw =
     (case rpc env (fst hw) prop args (snd hw) of (outcome, w1) \<Rightarrow>
      (case getStub env w1 of (freshStub, w2) \<Rightarrow>
       (case random env w2 of (rnd, w3) \<Rightarrow> (freshStub, w3))))"

definition nextAttempt2 ::
  "('w, 'h, 'a, 'v) env \<Rightarrow> string \<Rightarrow> 'a \<Rightarrow> 'h \<times> 'w \<Rightarrow> 'h \<times> 'w" where
  "nextAttempt2 env prop args hw =
     (case rpc env (fst hw) prop args (snd hw) of (outcome, w1) \<Rightarrow>
      (case random env w1 of (rnd, w2) \<Rightarrow>
       (case getStub env w2 of (freshStub, w3) \<Rightarrow> (freshStub, w3))))"

text \<open>
  The outcome of attempt \<open>i\<close> (counted from 1) of the call that starts on the handle
  \<open>target\<close> in the world \<open>w0\<close>, should the call get that far: \<open>next\<close> is applied
  \<open>i - 1\<close> times, and the method is invoked on the handle and in the world this gives.
\<close>

definition outcomeOfAttempt ::
  "('h \<times> 'w \<Rightarrow> 'h \<times> 'w) \<Rightarrow> ('w, 'h, 'a, 'v) env \<Rightarrow> string \<Rightarrow> 'a \<Rightarrow> 'h \<Rightarrow> 'w \<Rightarrow> nat
     \<Rightarrow> thrown + 'v" where
  "outcomeOfAttempt next env prop args target w0 i =
     (case (next ^^ (i - 1)) (target, w0) of (h, w) \<Rightarrow> fst (rpc env h prop args w))"

text \<open>
  The attempts 1 to \<open>k - 1\<close> reject, with errors that \<open>accepted\<close> holds of, and attempt
  \<open>k\<close> resolves with \<open>v\<close>.
\<close>

definition rejectsThenResolves ::
  "(nat \<Rightarrow> thrown + 'v) \<Rightarrow> (thrown \<Rightarrow> bool) \<Rightarrow> nat \<Rightarrow> 'v \<Rightarrow> bool" where
  "rejectsThenResolves outcome accepted k v \<longleftrightarrow>
     (\<forall>i \<in> {1..<k}. case outcome i of Inl e \<Rightarrow> accepted e | Inr u \<Rightarrow> False)
     \<and> outcome k = Inr v"

text \<open>
  The getter hands out fresh handles: \<open>held w\<close> are the handles that exist in the world
  \<open>w\<close>; the getter returns one that is not among them, and it is among them afterwards;
  nothing makes a handle cease to exist.
\<close>

definition handsOutFresh :: "('w \<Rightarrow> 'h set) \<Rightarrow> ('w, 'h, 'a, 'v) env \<Rightarrow> bool" where
  "handsOutFresh held env \<longleftrightarrow>
     (\<forall>w. fst (getStub env w) \<notin> held w
          \<and> insert (fst (getStub env w)) (held w) \<subseteq> held (snd (getStub env w)))
     \<and> (\<forall>h prop args w. held w \<subseteq> held (snd (rpc env h prop args w)))
     \<and> (\<forall>w. held w \<subseteq> held (snd (random env w)))"

section \<open>Further fixtures\<close>

text \<open>
  Two more fixtures: a namespace like the mock, except that its \<^verbatim>\<open>get\<close> returns the
  one handle it made first; and, for the mock, the handles that exist in a world, which
  are those numbered up to \<^verbatim>\<open>stubCreationCount\<close>.
\<close>

definition createCachingNamespace ::
  "(thrown + string) list \<Rightarrow> (thrown + string) \<Rightarrow> (nat \<times> nat, nat, string list, string) env" where
  "createCachingNamespace once fallback =
     (createMockNamespace once fallback)\<lparr>getStub := (\<lambda>w. (1, w))\<rparr>"

abbreviation cachingFailsOnce :: "(nat \<times> nat, nat, string list, string) env" where
  "cachingFailsOnce \<equiv>
     createCachingNamespace [Inl (createRetryableError ''transient-1'')] (Inr ''success'')"

definition createdSoFar :: "nat \<times> nat \<Rightarrow> nat set" where
  "createdSoFar w = {h. h \<le> snd w}"

text \<open>
  The members of the stub that \<^verbatim>\<open>createStub\<close> makes (lines 34 to 38) and of the mock
  namespace (lines 41 to 48), and the mock's addressing helpers: \<^verbatim>\<open>idFromName\<close> and
  \<^verbatim>\<open>idFromString\<close> return an id that renders as their argument, \<^verbatim>\<open>newUniqueId\<close> one
  that renders as \<^verbatim>\<open>unique-id\<close>; an id is modelled by its rendering, and the world
  counts the calls.
\<close>

definition mockStub :: "key \<Rightarrow> jsval member" where
  "mockStub prop =
     (if prop = Named ''id'' then NonCallable JObject
      else if prop = Named ''name'' then NonCallable (JStr ''test-stub'')
      else if prop = Named ''testMethod'' then Callable
      else NonCallable JUndefined)"

definition mockNamespace :: "key \<Rightarrow> jsval member" where
  "mockNamespace prop =
     (if prop \<in> {Named ''get'', Named ''getByName'', Named ''idFromName'', Named ''idFromString'',
                  Named ''newUniqueId'', Named ''jurisdiction''}
      then Callable else NonCallable JUndefined)"

definition mockNsOp :: "key \<Rightarrow> string option list \<Rightarrow> nat \<Rightarrow> string \<times> nat" where
  "mockNsOp prop args w =
     (if prop = Named ''newUniqueId'' then ''unique-id''
      else (case parameter args 0 of Some name \<Rightarrow> name | None \<Rightarrow> ''undefined''), Suc w)"

text \<open>
  A namespace whose first handle is broken: every invocation on handle 1 rejects with a
  transient error, whatever was invoked before, and every invocation on another handle
  resolves. The getter numbers its handles as the mock does; the world is the number of
  handles made.
\<close>

definition firstStubBroken :: "(nat, nat, string list, string) env" where
  "firstStubBroken =
     \<lparr>getStub = (\<lambda>w. (Suc w, Suc w)),
      rpc = (\<lambda>h prop args w.
               (if h = 1 then Inl (createRetryableError ''broken'') else Inr ''success'', w)),
      random = (\<lambda>w. (oneHalf, w))\<rparr>"

section \<open>Facts about the classifier\<close>

lemma includes_iff_sublist: "includes_str msg needle \<longleftrightarrow> sublist needle msg"
  by (induction msg) (auto simp: sublist_Cons_right)


section \<open>Facts about the backoff\<close>

lemma bitLength_0 [simp]: "bitLength 0 = 0"
  by (subst bitLength.simps) simp

lemma bitLength_pos: "0 < n \<Longrightarrow> bitLength n = Suc (bitLength (n div 2))"
  by (subst bitLength.simps) simp

lemma bitLength_bounds:
  "0 < n \<Longrightarrow> 2 ^ (bitLength n - 1) \<le> n \<and> n < 2 ^ bitLength n"
proof (induction n rule: less_induct)
  case (less n)
  have bl: "bitLength n = Suc (bitLength (n div 2))" using less.prems by (rule bitLength_pos)
  show ?case
  proof (cases "n div 2 = 0")
    case True
    with less.prems have "n = 1" by presburger
    then show ?thesis using bl True by simp
  next
    case False
    then have pos: "0 < n div 2" by simp
    have lt: "n div 2 < n" using less.prems by simp
    from less.IH[OF lt pos] have ih: "2 ^ (bitLength (n div 2) - 1) \<le> n div 2"
      "n div 2 < 2 ^ bitLength (n div 2)" by simp_all
    have b1: "bitLength (n div 2) = Suc (bitLength (n div 2) - 1)"
      using bitLength_pos[OF pos] by simp
    have "(2::nat) ^ (bitLength n - 1) = 2 * 2 ^ (bitLength (n div 2) - 1)"
      unfolding bl using b1 by (metis diff_Suc_1 power_Suc)
    also have "\<dots> \<le> 2 * (n div 2)" using ih(1) by simp
    also have "\<dots> \<le> n" by simp
    finally have lo: "2 ^ (bitLength n - 1) \<le> n" .
    have "n < 2 * (n div 2) + 2" by presburger
    also have "\<dots> \<le> 2 * 2 ^ bitLength (n div 2)" using ih(2) by simp
    also have "\<dots> = 2 ^ bitLength n" unfolding bl by simp
    finally show ?thesis using lo by simp
  qed
qed

lemma bitLength_small: "n < 2 ^ k \<Longrightarrow> bitLength n \<le> k"
proof (cases "n = 0")
  case True
  then show ?thesis by simp
next
  case False
  assume "n < 2 ^ k"
  moreover from False bitLength_bounds[of n] have "2 ^ (bitLength n - 1) \<le> n" by simp
  ultimately have "(2::nat) ^ (bitLength n - 1) < 2 ^ k" by (rule le_less_trans[rotated])
  then have "bitLength n - 1 < k" by (rule power_less_imp_less_exp[rotated]) simp
  then show ?thesis by simp
qed

lemma bitLength_eq:
  assumes "2 ^ k \<le> n" and "n < 2 ^ Suc k"
  shows "bitLength n = Suc k"
proof -
  have "0 < n" using assms(1) by (cases "n = 0") simp_all
  from bitLength_bounds[OF this]
  have lo: "2 ^ (bitLength n - 1) \<le> n" and hi: "n < 2 ^ bitLength n" by simp_all
  from lo assms(2) have "(2::nat) ^ (bitLength n - 1) < 2 ^ Suc k" by linarith
  then have "bitLength n - 1 < Suc k" by (simp only: power_strict_increasing_iff rel_simps)
  moreover from hi assms(1) have "(2::nat) ^ k < 2 ^ bitLength n" by linarith
  then have "k < bitLength n" by (simp only: power_strict_increasing_iff rel_simps)
  ultimately show ?thesis by linarith
qed

lemma roundToDouble_small: "n < 2 ^ 53 \<Longrightarrow> roundToDouble n = n"
  using bitLength_small[of n 53] by (simp add: roundToDouble_def)

lemma roundToDouble_upper:
  "roundToDouble n \<le> n + 2 ^ (bitLength n - 53 - 1) \<and> (bitLength n \<le> 53 \<longrightarrow> roundToDouble n = n)"
proof (cases "bitLength n - 53 = 0")
  case True
  then show ?thesis by (simp add: roundToDouble_def)
next
  case False
  define s where "s = bitLength n - 53"
  define q where "q = n div 2 ^ s"
  define r where "r = n mod 2 ^ s"
  have s1: "1 \<le> s" using False by (simp add: s_def)
  have n: "n = q * 2 ^ s + r" unfolding q_def r_def by (rule div_mult_mod_eq[symmetric])
  have two: "(2::nat) ^ s = 2 * 2 ^ (s - 1)" using s1 by (simp flip: power_Suc)
  have "roundToDouble n = (if r > 2 ^ (s - 1) \<or> (r = 2 ^ (s - 1) \<and> odd q) then q + 1 else q) * 2 ^ s"
    using False by (simp add: roundToDouble_def Let_def s_def q_def r_def)
  also have "\<dots> \<le> n + 2 ^ (s - 1)"
  proof (cases "r > 2 ^ (s - 1) \<or> (r = 2 ^ (s - 1) \<and> odd q)")
    case True
    then have "2 ^ (s - 1) \<le> r" by auto
    then have "(q + 1) * 2 ^ s \<le> q * 2 ^ s + r + 2 ^ (s - 1)" using two by (simp add: algebra_simps)
    then show ?thesis unfolding if_P[OF True] using n by simp
  next
    case False
    show ?thesis unfolding if_not_P[OF False] using n by simp
  qed
  finally show ?thesis using False by (simp add: s_def)
qed


lemma random_times_below:
  assumes rnd: "isMathRandom d" and c: "0 < c"
  shows "roundToDouble (significand d * c) div 2 ^ scale d < c"
proof -
  define m where "m = significand d"
  define j where "j = scale d"
  define N where "N = m * c"
  define B :: nat where "B = 2 ^ 53"
  from rnd have m53: "m < B" and mj: "m < 2 ^ j"
    by (simp_all add: isMathRandom_def m_def j_def B_def)
  from mj have "m + 1 \<le> 2 ^ j" by simp
  then have "(m + 1) * c \<le> 2 ^ j * c" by (rule mult_le_mono1)
  then have Nc: "N + c \<le> 2 ^ j * c" by (simp add: N_def algebra_simps)
  have "roundToDouble N < 2 ^ j * c"
  proof (cases "bitLength N \<le> 53")
    case True
    with roundToDouble_upper[of N] have "roundToDouble N = N" by simp
    with Nc c show ?thesis by simp
  next
    case False
    define s where "s = bitLength N - 53"
    have s1: "1 \<le> s" using False by (simp add: s_def)
    have bl: "bitLength N - 1 = 53 + (s - 1)" using False by (simp add: s_def)
    have Npos: "0 < N" using False by (cases "N = 0") simp_all
    from bitLength_bounds[OF Npos] have "2 ^ (bitLength N - 1) \<le> N" by blast
    then have "B * 2 ^ (s - 1) \<le> N" unfolding bl B_def power_add .
    also have "N < B * c" unfolding N_def using m53 c by simp
    finally have half: "2 ^ (s - 1) < c" using mult_less_cancel1 by blast
    from roundToDouble_upper[of N] have "roundToDouble N \<le> N + 2 ^ (s - 1)" by (simp add: s_def)
    also have "\<dots> < N + c" using half by simp
    also have "\<dots> \<le> 2 ^ j * c" by (rule Nc)
    finally show ?thesis .
  qed
  then have "roundToDouble N div 2 ^ j < c"
    by (simp add: less_mult_imp_div_less mult.commute)
  then show ?thesis by (simp add: N_def m_def j_def)
qed

lemma isIntegerNumber_below: "isIntegerNumber n \<Longrightarrow> n < twoTo1024"
  unfolding isIntegerNumber_def by (simp add: abs_less_iff)

lemma twoTo1024_le_power: "1024 \<le> a \<Longrightarrow> twoTo1024 \<le> 2 ^ a"
  unfolding twoTo1024_def by (rule power_increasing) simp_all

lemma twoTo1024_pos: "0 < twoTo1024"
  unfolding twoTo1024_def by (rule zero_less_power) simp

lemma cap_finite:
  assumes m: "maxDelay < twoTo1024" and ok: "a < 1024 \<or> base \<noteq> 0"
  shows "Math_min (timesNumber (twoToThe a) base) maxDelay = Finite (min (2 ^ a * base) maxDelay)
         \<or> min (2 ^ a * base) maxDelay < 0"
proof (cases "a < 1024")
  case True
  show ?thesis
  proof (cases "\<bar>2 ^ a * base\<bar> < twoTo1024")
    case small: True
    then show ?thesis using True by (simp add: twoToThe_def timesNumber_def Math_min_def)
  next
    case big: False
    show ?thesis
    proof (cases "0 < 2 ^ a * base")
      case pos: True
      with big m have "maxDelay \<le> 2 ^ a * base" by linarith
      then show ?thesis using True big pos by (simp add: twoToThe_def timesNumber_def Math_min_def min_def)
    next
      case False
      with big twoTo1024_pos have "2 ^ a * base < 0" by linarith
      then show ?thesis by (simp add: min_less_iff_disj)
    qed
  qed
next
  case False
  with ok have b0: "base \<noteq> 0" by simp
  show ?thesis
  proof (cases "0 < base")
    case True
    from False have "twoTo1024 \<le> 2 ^ a" by (intro twoTo1024_le_power) simp
    also have "\<dots> \<le> 2 ^ a * base" using True by simp
    finally have "maxDelay \<le> 2 ^ a * base" using m by linarith
    then show ?thesis using False True by (simp add: twoToThe_def timesNumber_def Math_min_def min_def)
  next
    case neg: False
    with b0 have "base < 0" by simp
    then have "2 ^ a * base < 0" by (simp add: mult_pos_neg)
    then show ?thesis by (simp add: min_less_iff_disj)
  qed
qed

lemma floor_random_times_nonneg:
  assumes "isMathRandom rnd" and "0 \<le> c"
  shows "\<exists>n. floorOfRandomTimes rnd (Finite c) = Finite n \<and> 0 \<le> n
            \<and> (0 < c \<longrightarrow> n < c) \<and> (c = 0 \<longrightarrow> n = 0)"
proof (cases "c = 0")
  case True
  then show ?thesis by (simp add: floorOfRandomTimes_def roundToDouble_small)
next
  case False
  with assms(2) have pos: "0 < nat c" by simp
  from random_times_below[OF assms(1) pos]
  have "int (roundToDouble (significand rnd * nat c) div 2 ^ scale rnd) < c" by linarith
  then show ?thesis using assms(2) False by (simp add: floorOfRandomTimes_def)
qed

lemma isIntegerNumber_small: "\<bar>n\<bar> < 2 ^ 53 \<Longrightarrow> isIntegerNumber n"
proof -
  assume a: "\<bar>n\<bar> < 2 ^ 53"
  then have "nat \<bar>n\<bar> < 2 ^ 53" by (simp add: nat_less_iff)
  then have "bitLength (nat \<bar>n\<bar>) - 53 = 0" using bitLength_small[of "nat \<bar>n\<bar>" 53] by simp
  moreover have "\<bar>n\<bar> < twoTo1024"
  proof -
    have "(2::int) ^ 53 \<le> 2 ^ 1024" by (rule power_increasing) simp_all
    with a show ?thesis unfolding twoTo1024_def by linarith
  qed
  ultimately show ?thesis by (simp add: isIntegerNumber_def)
qed

lemma jitterBackoff_small:
  assumes "a < 1024" and "\<bar>2 ^ a * b\<bar> < 2 ^ 53" and "0 \<le> min (2 ^ a * b) m"
      and "significand rnd * nat (min (2 ^ a * b) m) < 2 ^ 53"
  shows "jitterBackoff rnd a b m
           = Finite (int (significand rnd * nat (min (2 ^ a * b) m) div 2 ^ scale rnd))"
proof -
  have "(2::int) ^ 53 \<le> 2 ^ 1024" by (rule power_increasing) simp_all
  with assms(2) have "\<bar>2 ^ a * b\<bar> < twoTo1024" unfolding twoTo1024_def by linarith
  then show ?thesis
    using assms(1,3,4)
    by (simp add: jitterBackoff_def twoToThe_def timesNumber_def Math_min_def
          floorOfRandomTimes_def roundToDouble_small)
qed

lemma jitterBackoff_oneHalf:
  "jitterBackoff oneHalf 1 1 10 = Finite 1"
  "jitterBackoff oneHalf 2 1 10 = Finite 2"
  "jitterBackoff oneHalf (Suc 0) 1 10 = Finite 1"
  "jitterBackoff oneHalf (Suc (Suc 0)) 1 10 = Finite 2"
  by (simp_all add: jitterBackoff_small oneHalf_def)

text \<open>
  The rounding of the product is part of the model: for the draw
  \<open>6004799503160661 / 2 ^ 53\<close> and the cap 3 the exact product is \<open>2 - 2 ^ -53\<close>, whose
  floor is 1; the double nearest to it is 2, and that is what the code floors.
\<close>

lemma jitterBackoff_rounds_the_product:
  "isMathRandom \<lparr>significand = 6004799503160661, scale = 53\<rparr>
   \<and> jitterBackoff \<lparr>significand = 6004799503160661, scale = 53\<rparr> 1 2 3 = Finite 2
   \<and> (6004799503160661 * 3) div (2 ^ 53) = (1::nat)"
proof -
  have bl: "bitLength 18014398509481983 = 54"
    using bitLength_eq[of 53 18014398509481983] by simp
  show ?thesis
    by (simp add: isMathRandom_def jitterBackoff_def twoToThe_def timesNumber_def Math_min_def
          floorOfRandomTimes_def roundToDouble_def bl twoTo1024_def)
qed

text \<open>
  Claim C6, as stated, lets \<^verbatim>\<open>maxDelayMs\<close> be any integer and the attempt any number
  from 1 on. With a negative \<^verbatim>\<open>maxDelayMs\<close> the cap is negative, the interval from 0 to
  the cap is empty, and the delay is negative: for the draw one half, attempt 1, base 100
  and maximum \<open>-10\<close> the code computes \<^verbatim>\<open>Math.floor(0.5 * Math.min(200, -10))\<close>, which
  is \<open>-5\<close>. And from attempt 1024 on \<^verbatim>\<open>2 ** attempt\<close> is \<^verbatim>\<open>Infinity\<close>: with base 0
  the product, the cap and the delay are \<^verbatim>\<open>NaN\<close>, where the interval holds 0 alone.
\<close>

theorem jitterBackoff_negative_maxDelay:
  "isMathRandom oneHalf \<and> (1::nat) \<le> 1 \<and> (0::int) \<le> 100
   \<and> jitterBackoff oneHalf 1 100 (-10) = Finite (-5)
   \<and> \<not> (0 \<le> (-5::int) \<and> (-5::int) \<le> min (2 ^ 1 * 100) (-10))
   \<and> (1::nat) \<le> 1024 \<and> (0::int) \<le> 0 \<and> (0::int) \<le> 10
   \<and> min (2 ^ 1024 * 0) (10::int) = 0
   \<and> jitterBackoff oneHalf 1024 0 10 = NaN
   \<and> jitterBackoff oneHalf 1024 0 10 \<noteq> Finite 0"
  by (simp add: jitterBackoff_def twoToThe_def timesNumber_def Math_min_def floorOfRandomTimes_def
        roundToDouble_small oneHalf_def twoTo1024_def isMathRandom_def)

text \<open>
  Claim C6, amended: for every attempt number \<open>a \<ge> 1\<close>, every integer
  \<^verbatim>\<open>baseDelayMs \<ge> 0\<close> and every integer \<^verbatim>\<open>maxDelayMs \<ge> 0\<close> (integers that are
  Numbers), with \<open>a < 1024\<close> or \<^verbatim>\<open>baseDelayMs > 0\<close>, and every value of
  \<^verbatim>\<open>Math.random()\<close>, the computed delay is an integer in the closed interval from 0 to
  \<open>min (2^a * baseDelayMs) maxDelayMs\<close>.
\<close>

theorem jitterBackoff_within_cap:
  assumes "isMathRandom rnd" and "1 \<le> a" and "0 \<le> base" and "0 \<le> maxDelay"
      and "isIntegerNumber base" and "isIntegerNumber maxDelay" and "a < 1024 \<or> 0 < base"
  shows "\<exists>n. jitterBackoff rnd a base maxDelay = Finite n
            \<and> 0 \<le> n \<and> n \<le> min (2 ^ a * base) maxDelay"
proof -
  have m: "maxDelay < twoTo1024" using assms(6) by (rule isIntegerNumber_below)
  have ok: "a < 1024 \<or> base \<noteq> 0" using assms(7) by auto
  have nn: "0 \<le> min (2 ^ a * base) maxDelay" using assms(3,4) by simp
  with cap_finite[OF m ok]
  have cap: "Math_min (timesNumber (twoToThe a) base) maxDelay = Finite (min (2 ^ a * base) maxDelay)"
    by simp
  from floor_random_times_nonneg[OF assms(1) nn] obtain n where
    n: "floorOfRandomTimes rnd (Finite (min (2 ^ a * base) maxDelay)) = Finite n"
    and "0 \<le> n" and "0 < min (2 ^ a * base) maxDelay \<longrightarrow> n < min (2 ^ a * base) maxDelay"
    and "min (2 ^ a * base) maxDelay = 0 \<longrightarrow> n = 0" by blast
  with nn have "0 \<le> n \<and> n \<le> min (2 ^ a * base) maxDelay" by linarith
  then show ?thesis
    unfolding jitterBackoff_def Let_def cap using n by (intro exI[of _ n]) simp
qed

theorem jitterBackoff_within_cap_witness:
  "isMathRandom oneHalf \<and> (1::nat) \<le> 3 \<and> (0::int) \<le> 100 \<and> (0::int) \<le> 3000
   \<and> isIntegerNumber 100 \<and> isIntegerNumber 3000 \<and> ((3::nat) < 1024 \<or> (0::int) < 100)
   \<and> (\<exists>n. jitterBackoff oneHalf 3 100 3000 = Finite n
           \<and> 0 \<le> n \<and> n \<le> min (2 ^ 3 * 100) 3000)
   \<and> jitterBackoff oneHalf 3 100 3000 = Finite 400
   \<and> (1::nat) \<le> 1024 \<and> ((1024::nat) < 1024 \<or> (0::int) < 100)
   \<and> (\<exists>n. jitterBackoff oneHalf 1024 100 3000 = Finite n
           \<and> 0 \<le> n \<and> n \<le> min (2 ^ 1024 * 100) 3000)
   \<and> jitterBackoff oneHalf 1024 100 3000 = Finite 1500"
proof -
  have r: "isMathRandom oneHalf" by (simp add: isMathRandom_def oneHalf_def)
  have i: "isIntegerNumber 100" "isIntegerNumber 3000" by (simp_all add: isIntegerNumber_small)
  have a: "(1::nat) \<le> 3" "(0::int) \<le> 100" "(0::int) \<le> 3000" "(1::nat) \<le> 1024" by simp_all
  have o: "(3::nat) < 1024 \<or> (0::int) < 100" "(1024::nat) < 1024 \<or> (0::int) < 100" by simp_all
  note t1 = jitterBackoff_within_cap[OF r a(1) a(2) a(3) i(1) i(2) o(1)]
  note t2 = jitterBackoff_within_cap[OF r a(4) a(2) a(3) i(1) i(2) o(2)]
  have e1: "jitterBackoff oneHalf 3 100 3000 = Finite 400"
    by (simp add: jitterBackoff_small oneHalf_def)
  have e2: "jitterBackoff oneHalf 1024 100 3000 = Finite 1500"
    by (simp add: jitterBackoff_def twoToThe_def timesNumber_def Math_min_def
          floorOfRandomTimes_def roundToDouble_small oneHalf_def)
  from r i a o t1 t2 e1 e2 show ?thesis by blast
qed

text \<open>
  Claim C10, as stated, covers every attempt from 1 on. From attempt 1024 on
  \<^verbatim>\<open>2 ** attempt\<close> is \<^verbatim>\<open>Infinity\<close>; with \<^verbatim>\<open>baseDelayMs = 0\<close> the product
  \<^verbatim>\<open>Infinity * 0\<close> is \<^verbatim>\<open>NaN\<close>, and so are the cap and the delay, where the cap of
  the claim is 0 and the delay it promises is 0.
\<close>

theorem jitterBackoff_NaN_at_attempt_1030:
  "isMathRandom threeQuarters \<and> (1::nat) \<le> 1030
   \<and> min (2 ^ 1030 * 0) (3000::int) = 0
   \<and> jitterBackoff threeQuarters 1030 0 3000 = NaN
   \<and> jitterBackoff threeQuarters 1030 0 3000 \<noteq> Finite 0"
  by (simp add: jitterBackoff_def twoToThe_def timesNumber_def Math_min_def floorOfRandomTimes_def
        threeQuarters_def isMathRandom_def)

text \<open>
  Claim C10, amended. For every attempt \<open>a \<ge> 1\<close>, all integer \<^verbatim>\<open>baseDelayMs\<close> and
  \<^verbatim>\<open>maxDelayMs\<close> (integers that are Numbers), with \<open>a < 1024\<close> or \<^verbatim>\<open>baseDelayMs\<close>
  other than 0, and every value of \<^verbatim>\<open>Math.random()\<close>: whenever the cap
  \<open>min (2^a * baseDelayMs) maxDelayMs\<close> is positive, the delay is a non-negative integer
  strictly below the cap, so the cap itself is never returned; and whenever the cap is 0,
  the delay is exactly 0.
\<close>

theorem jitterBackoff_below_cap:
  assumes "isMathRandom rnd" and "1 \<le> a"
      and "isIntegerNumber base" and "isIntegerNumber maxDelay" and "a < 1024 \<or> base \<noteq> 0"
  shows "(0 < min (2 ^ a * base) maxDelay \<longrightarrow>
            (\<exists>n. jitterBackoff rnd a base maxDelay = Finite n
                 \<and> 0 \<le> n \<and> n < min (2 ^ a * base) maxDelay))
       \<and> (min (2 ^ a * base) maxDelay = 0 \<longrightarrow> jitterBackoff rnd a base maxDelay = Finite 0)"
proof -
  have m: "maxDelay < twoTo1024" using assms(4) by (rule isIntegerNumber_below)
  note cf = cap_finite[OF m assms(5)]
  show ?thesis
  proof (intro conjI impI)
    assume pos: "0 < min (2 ^ a * base) maxDelay"
    with cf have cap: "Math_min (timesNumber (twoToThe a) base) maxDelay = Finite (min (2 ^ a * base) maxDelay)"
      by simp
    from pos have nn: "0 \<le> min (2 ^ a * base) maxDelay" by simp
    from floor_random_times_nonneg[OF assms(1) nn] pos obtain n where
      n: "floorOfRandomTimes rnd (Finite (min (2 ^ a * base) maxDelay)) = Finite n"
      and "0 \<le> n \<and> n < min (2 ^ a * base) maxDelay" by blast
    then show "\<exists>n. jitterBackoff rnd a base maxDelay = Finite n
                 \<and> 0 \<le> n \<and> n < min (2 ^ a * base) maxDelay"
      unfolding jitterBackoff_def Let_def cap by (intro exI[of _ n]) simp
  next
    assume z: "min (2 ^ a * base) maxDelay = 0"
    with cf have cap: "Math_min (timesNumber (twoToThe a) base) maxDelay = Finite 0" by simp
    from floor_random_times_nonneg[OF assms(1), of 0]
    show "jitterBackoff rnd a base maxDelay = Finite 0"
      unfolding jitterBackoff_def Let_def cap by auto
  qed
qed

theorem jitterBackoff_below_cap_witness:
  "isMathRandom threeQuarters \<and> (1::nat) \<le> 2
   \<and> isIntegerNumber 1 \<and> isIntegerNumber 0 \<and> isIntegerNumber 10
   \<and> ((2::nat) < 1024 \<or> (1::int) \<noteq> 0) \<and> ((2::nat) < 1024 \<or> (0::int) \<noteq> 0)
   \<and> 0 < min (2 ^ 2 * 1) (10::int)
   \<and> (\<exists>n. jitterBackoff threeQuarters 2 1 10 = Finite n \<and> 0 \<le> n \<and> n < min (2 ^ 2 * 1) 10)
   \<and> jitterBackoff threeQuarters 2 1 10 = Finite 3
   \<and> min (2 ^ 2 * 0) (10::int) = 0
   \<and> jitterBackoff threeQuarters 2 0 10 = Finite 0"
proof -
  have r: "isMathRandom threeQuarters" by (simp add: isMathRandom_def threeQuarters_def)
  have i: "isIntegerNumber 1" "isIntegerNumber 0" "isIntegerNumber 10"
    by (simp_all add: isIntegerNumber_small)
  have a: "(1::nat) \<le> 2" by simp
  have o: "(2::nat) < 1024 \<or> (1::int) \<noteq> 0" "(2::nat) < 1024 \<or> (0::int) \<noteq> 0" by simp_all
  have p: "0 < min (2 ^ 2 * 1) (10::int)" and z: "min (2 ^ 2 * 0) (10::int) = 0" by simp_all
  note t1 = jitterBackoff_below_cap[OF r a i(1) i(3) o(1)]
  note t2 = jitterBackoff_below_cap[OF r a i(2) i(3) o(2)]
  have c1: "\<exists>n. jitterBackoff threeQuarters 2 1 10 = Finite n \<and> 0 \<le> n \<and> n < min (2 ^ 2 * 1) 10"
    using conjunct1[OF t1] p by blast
  have c2: "jitterBackoff threeQuarters 2 0 10 = Finite 0"
    using conjunct2[OF t2] z by blast
  have e1: "jitterBackoff threeQuarters 2 1 10 = Finite 3"
    by (simp add: jitterBackoff_small threeQuarters_def)
  from r i a o p z c1 c2 e1 show ?thesis by blast
qed


section \<open>Facts about the record\<close>

lemma outcomesOf_append [simp]: "outcomesOf (xs @ ys) = outcomesOf xs @ outcomesOf ys"
  by (induction xs) (auto split: event.splits)

lemma callsOf_append [simp]: "callsOf (xs @ ys) = callsOf xs @ callsOf ys"
  by (induction xs) (auto split: event.splits)

lemma acquiredOf_append [simp]: "acquiredOf (xs @ ys) = acquiredOf xs @ acquiredOf ys"
  by (induction xs) (auto split: event.splits)

lemma withoutWaits_append [simp]: "withoutWaits (xs @ ys) = withoutWaits xs @ withoutWaits ys"
  by (induction xs) (auto split: event.splits)

section \<open>One turn of the loop\<close>

lemma afterFailure_eq:
  "afterFailure env options attempt s1 =
     (fst (getStub env (fst s1)),
      (snd (random env (snd (getStub env (fst s1)))),
       snd s1 @ [Acquired (fst (getStub env (fst s1))),
                 Waited (jitterBackoff (fst (random env (snd (getStub env (fst s1))))) attempt
                           (baseDelayMs options) (maxDelayMs options))]))"
  by (simp add: afterFailure_def acquire_def draw_def scheduler_wait_def split: prod.splits)

lemma afterFailure2_eq:
  "afterFailure2 env options attempt s1 =
     (snd (random env (fst s1)),
      snd s1 @ [Waited (jitterBackoff (fst (random env (fst s1))) attempt
                           (baseDelayMs options) (maxDelayMs options))])"
  by (simp add: afterFailure2_def draw_def scheduler_wait_def split: prod.splits)

lemma stubFor_eq:
  "stubFor env target attempt s =
     (if attempt = 1 then (target, s)
      else (fst (getStub env (fst s)),
            (snd (getStub env (fst s)), snd s @ [Acquired (fst (getStub env (fst s)))])))"
  by (simp add: stubFor_def acquire_def split: prod.splits)

lemma attemptLoop_exhausted:
  "\<not> int attempt \<le> maxAttempts options \<Longrightarrow>
     attemptLoop env options prop args attempt lastError h s = (Inl lastError, s)"
  by simp

lemma attemptLoop_resolves:
  "int attempt \<le> maxAttempts options \<Longrightarrow> rpc env h prop args (fst s) = (Inr v, w1) \<Longrightarrow>
     attemptLoop env options prop args attempt lastError h s
       = (Inr v, (w1, snd s @ [Invoked h prop args (Inr v)]))"
  by (simp add: invoke_def)

lemma attemptLoop_throws:
  "int attempt \<le> maxAttempts options \<Longrightarrow> rpc env h prop args (fst s) = (Inl e, w1) \<Longrightarrow>
   \<not> shouldRetry options e \<Longrightarrow>
     attemptLoop env options prop args attempt lastError h s
       = (Inl e, (w1, snd s @ [Invoked h prop args (Inl e)]))"
  by (simp add: invoke_def shouldRetry_def)

lemma attemptLoop_budget_spent:
  "int attempt = maxAttempts options \<Longrightarrow> rpc env h prop args (fst s) = (Inl e, w1) \<Longrightarrow>
     attemptLoop env options prop args attempt lastError h s
       = (Inl e, (w1, snd s @ [Invoked h prop args (Inl e)]))"
  by (simp add: invoke_def)

lemma attemptLoop_retries:
  "int attempt < maxAttempts options \<Longrightarrow> rpc env h prop args (fst s) = (Inl e, w1) \<Longrightarrow>
   shouldRetry options e \<Longrightarrow>
     attemptLoop env options prop args attempt lastError h s
       = (case afterFailure env options attempt (w1, snd s @ [Invoked h prop args (Inl e)]) of
            (h', s') \<Rightarrow> attemptLoop env options prop args (attempt + 1) e h' s')"
  by (auto simp add: invoke_def shouldRetry_def afterFailure_def split: prod.splits)

lemma attemptLoop2_exhausted:
  "\<not> int attempt \<le> maxAttempts options \<Longrightarrow>
     attemptLoop2 env options target prop args attempt lastError s = (Inl lastError, s)"
  by simp

lemma attemptLoop2_resolves:
  "int attempt \<le> maxAttempts options \<Longrightarrow> stubFor env target attempt s = (h, s0) \<Longrightarrow>
   rpc env h prop args (fst s0) = (Inr v, w1) \<Longrightarrow>
     attemptLoop2 env options target prop args attempt lastError s
       = (Inr v, (w1, snd s0 @ [Invoked h prop args (Inr v)]))"
  by (auto simp add: invoke_def stubFor_def split: if_splits)

lemma attemptLoop2_throws:
  "int attempt \<le> maxAttempts options \<Longrightarrow> stubFor env target attempt s = (h, s0) \<Longrightarrow>
   rpc env h prop args (fst s0) = (Inl e, w1) \<Longrightarrow> \<not> shouldRetry2 options e \<Longrightarrow>
     attemptLoop2 env options target prop args attempt lastError s
       = (Inl e, (w1, snd s0 @ [Invoked h prop args (Inl e)]))"
  by (auto simp add: invoke_def stubFor_def shouldRetry2_def split: if_splits)

lemma attemptLoop2_budget_spent:
  "int attempt = maxAttempts options \<Longrightarrow> stubFor env target attempt s = (h, s0) \<Longrightarrow>
   rpc env h prop args (fst s0) = (Inl e, w1) \<Longrightarrow>
     attemptLoop2 env options target prop args attempt lastError s
       = (Inl e, (w1, snd s0 @ [Invoked h prop args (Inl e)]))"
  by (auto simp add: invoke_def stubFor_def split: if_splits)

lemma attemptLoop2_retries:
  "int attempt < maxAttempts options \<Longrightarrow> stubFor env target attempt s = (h, s0) \<Longrightarrow>
   rpc env h prop args (fst s0) = (Inl e, w1) \<Longrightarrow> shouldRetry2 options e \<Longrightarrow>
     attemptLoop2 env options target prop args attempt lastError s
       = attemptLoop2 env options target prop args (attempt + 1) e
           (afterFailure2 env options attempt (w1, snd s0 @ [Invoked h prop args (Inl e)]))"
  by (auto simp add: invoke_def stubFor_def shouldRetry2_def afterFailure2_def
           split: if_splits prod.splits)

declare attemptLoop.simps [simp del]
declare attemptLoop2.simps [simp del]

lemma attemptLoop_extends:
  "n = nat (maxAttempts options + 1 - int a) \<Longrightarrow>
     \<exists>r w' evs. attemptLoop env options prop args a lastError h s = (r, (w', snd s @ evs))
        \<and> (int a \<le> maxAttempts options \<longrightarrow> outcomesOf evs \<noteq> [])"
proof (induction n arbitrary: a lastError h s)
  case 0
  then have gt: "\<not> int a \<le> maxAttempts options" by simp
  then have "attemptLoop env options prop args a lastError h s = (Inl lastError, (fst s, snd s @ []))"
    by (simp add: attemptLoop_exhausted)
  with gt show ?case by blast
next
  case (Suc n)
  then have le: "int a \<le> maxAttempts options" by simp
  obtain out w1 where r: "rpc env h prop args (fst s) = (out, w1)" by (metis surj_pair)
  show ?case
  proof (cases out)
    case (Inr v)
    with attemptLoop_resolves[OF le r[unfolded Inr]] show ?thesis by simp
  next
    case (Inl e)
    note r' = r[unfolded Inl]
    show ?thesis
    proof (cases "shouldRetry options e")
      case False
      with attemptLoop_throws[OF le r'] show ?thesis by simp
    next
      case sr: True
      show ?thesis
      proof (cases "int a = maxAttempts options")
        case True
        with attemptLoop_budget_spent[OF True r'] show ?thesis by simp
      next
        case False
        with le have lt: "int a < maxAttempts options" by simp
        let ?s1 = "(w1, snd s @ [Invoked h prop args (Inl e)])"
        obtain h' s' where af: "afterFailure env options a ?s1 = (h', s')" by (metis surj_pair)
        then obtain w2 d where s': "s' = (w2, snd ?s1 @ [Acquired h', Waited d])"
          by (auto simp: afterFailure_eq)
        have step: "attemptLoop env options prop args a lastError h s
                      = attemptLoop env options prop args (a + 1) e h' s'"
          using attemptLoop_retries[OF lt r' sr] af by simp
        have "n = nat (maxAttempts options + 1 - int (a + 1))" using Suc.prems by simp
        from Suc.IH[OF this, of e h' s'] obtain r2 w' evs where
          "attemptLoop env options prop args (a + 1) e h' s' = (r2, (w', snd s' @ evs))" by blast
        then show ?thesis using step by (simp add: s')
      qed
    qed
  qed
qed

lemma attemptLoop2_extends:
  "n = nat (maxAttempts options + 1 - int a) \<Longrightarrow>
     \<exists>r w' evs. attemptLoop2 env options target prop args a lastError s = (r, (w', snd s @ evs))
        \<and> (int a \<le> maxAttempts options \<longrightarrow> outcomesOf evs \<noteq> [])"
proof (induction n arbitrary: a lastError s)
  case 0
  then have gt: "\<not> int a \<le> maxAttempts options" by simp
  then have "attemptLoop2 env options target prop args a lastError s
               = (Inl lastError, (fst s, snd s @ []))"
    by (simp add: attemptLoop2_exhausted)
  with gt show ?case by blast
next
  case (Suc n)
  then have le: "int a \<le> maxAttempts options" by simp
  obtain h s0 where sf: "stubFor env target a s = (h, s0)" by (metis surj_pair)
  then obtain pre where s0: "snd s0 = snd s @ pre" "outcomesOf pre = []"
    by (auto simp: stubFor_eq split: if_splits)
  obtain out w1 where r: "rpc env h prop args (fst s0) = (out, w1)" by (metis surj_pair)
  show ?case
  proof (cases out)
    case (Inr v)
    with attemptLoop2_resolves[OF le sf r[unfolded Inr]] show ?thesis by (simp add: s0)
  next
    case (Inl e)
    note r' = r[unfolded Inl]
    show ?thesis
    proof (cases "shouldRetry2 options e")
      case False
      with attemptLoop2_throws[OF le sf r'] show ?thesis by (simp add: s0)
    next
      case sr: True
      show ?thesis
      proof (cases "int a = maxAttempts options")
        case True
        with attemptLoop2_budget_spent[OF True sf r'] show ?thesis by (simp add: s0)
      next
        case False
        with le have lt: "int a < maxAttempts options" by simp
        let ?s1 = "(w1, snd s0 @ [Invoked h prop args (Inl e)])"
        obtain w2 d where s': "afterFailure2 env options a ?s1 = (w2, snd ?s1 @ [Waited d])"
          by (auto simp: afterFailure2_eq)
        have step: "attemptLoop2 env options target prop args a lastError s
                      = attemptLoop2 env options target prop args (a + 1) e (w2, snd ?s1 @ [Waited d])"
          using attemptLoop2_retries[OF lt sf r' sr] s' by simp
        have "n = nat (maxAttempts options + 1 - int (a + 1))" using Suc.prems by simp
        from Suc.IH[OF this, of e "(w2, snd ?s1 @ [Waited d])"] obtain r2 w' evs where
          "attemptLoop2 env options target prop args (a + 1) e (w2, snd ?s1 @ [Waited d])
             = (r2, (w', snd (w2, snd ?s1 @ [Waited d]) @ evs))" by blast
        then show ?thesis using step by (simp add: s0)
      qed
    qed
  qed
qed

section \<open>Facts about the engine\<close>

lemma withRetry_opts_isRetryable:
  "isRetryable (withRetry_opts given) = Option.bind given isRetryable_given"
  "isRetryable (withRetry_opts2 given)
     = (case Option.bind given isRetryable_given of None \<Rightarrow> isErrorRetryable | Some p \<Rightarrow> p)"
  "maxAttempts (withRetry_opts2 given) = maxAttempts (withRetry_opts given)"
  by (simp_all add: withRetry_opts_def withRetry_opts2_def)

lemma overloaded_not_builtin:
  assumes "Boolean (optChain e ''overloaded'')
           \<or> (\<exists>before after. String e = before @ ''Durable Object is overloaded'' @ after)"
  shows "\<not> isErrorRetryable e"
  using assms unfolding isErrorRetryable_def Let_def includes_iff_sublist sublist_def by blast

text \<open>
  Claim C9. \<^verbatim>\<open>withRetry\<close> copies \<^verbatim>\<open>maxAttempts\<close> from the caller's options without
  a check. For every configuration whose \<^verbatim>\<open>maxAttempts\<close> is zero or negative, a call of
  any wrapped method leaves the world and the record as they were (the underlying method is
  not invoked, no handle is requested, nothing is waited for) and rejects with
  \<^verbatim>\<open>undefined\<close>, the initial value of \<^verbatim>\<open>lastError\<close>. Both renditions of the module
  behave so.
\<close>

theorem nonpositive_maxAttempts_rejects_undefined:
  assumes "maxAttempts_given given = Some n" and "n \<le> 0"
  shows "createStubProxy_call env (withRetry_opts (Some given)) target prop args s
           = (Inl ThrownUndefined, s)
       \<and> createStubProxy_call2 env (withRetry_opts2 (Some given)) target prop args s
           = (Inl ThrownUndefined, s)"
proof -
  have "\<not> int 1 \<le> maxAttempts (withRetry_opts (Some given))"
       "\<not> int 1 \<le> maxAttempts (withRetry_opts2 (Some given))"
    using assms by (simp_all add: withRetry_opts_def withRetry_opts2_def)
  then show ?thesis
    unfolding createStubProxy_call_def createStubProxy_call2_def
    by (simp add: attemptLoop_exhausted attemptLoop2_exhausted)
qed

theorem nonpositive_maxAttempts_witness:
  "maxAttempts_given (FAST_RETRY\<lparr>maxAttempts_given := Some 0\<rparr>) = Some 0 \<and> (0::int) \<le> 0
   \<and> createStubProxy_call alwaysSucceeds
        (withRetry_opts (Some (FAST_RETRY\<lparr>maxAttempts_given := Some 0\<rparr>)))
        1 ''testMethod'' [''arg1''] ((0, 1), [])
      = (Inl ThrownUndefined, ((0, 1), []))
   \<and> createStubProxy_call2 alwaysSucceeds
        (withRetry_opts2 (Some (FAST_RETRY\<lparr>maxAttempts_given := Some 0\<rparr>)))
        1 ''testMethod'' [''arg1''] ((0, 1), [])
      = (Inl ThrownUndefined, ((0, 1), []))"
  using nonpositive_maxAttempts_rejects_undefined
          [of "FAST_RETRY\<lparr>maxAttempts_given := Some 0\<rparr>" 0
              "createMockNamespace [] (Inr ''success'')" 1 "''testMethod''" "[''arg1'']" "((0, 1), [])"]
  by (simp add: FAST_RETRY_def)

text \<open>
  Claim C3, as stated, covers every caller-supplied predicate. The predicate is consulted
  whenever the built-in rule says no (line 94), also for an overloaded error: with the
  test suite's overloaded error, \<^verbatim>\<open>maxAttempts: 2\<close> and a predicate that returns true,
  the method is invoked twice, on two handles, with a wait in between.
\<close>

theorem overloaded_retried_by_predicate:
  "Boolean (optChain (createOverloadedError ''overloaded'') ''overloaded'')
   \<and> 1 < maxAttempts (withRetry_opts twoAttemptsPredicateAlways)
   \<and> createStubProxy_call alwaysOverloaded
        (withRetry_opts twoAttemptsPredicateAlways)
        1 ''testMethod'' [] ((0, 1), [])
      = (Inl (createOverloadedError ''overloaded''),
         ((2, 2), [Invoked 1 ''testMethod'' [] (Inl (createOverloadedError ''overloaded'')),
                   Acquired 2, Waited (Finite 1),
                   Invoked 2 ''testMethod'' [] (Inl (createOverloadedError ''overloaded''))]))"
  by (simp add: createStubProxy_call_def attemptLoop.simps invoke_def acquire_def draw_def
        scheduler_wait_def jitterBackoff_oneHalf createMockNamespace_def withRetry_opts_def
        FAST_RETRY_def customRetryable_def createOverloadedError_def isErrorRetryable_def)

text \<open>
  Claim C3, amended: for every error with a truthy \<^verbatim>\<open>overloaded\<close> marker, or whose
  rendering contains \<^verbatim>\<open>Durable Object is overloaded\<close>, and every configuration with
  \<^verbatim>\<open>maxAttempts > 1\<close> whose predicate is absent or returns false for that error, a call
  whose first invocation rejects with that error invokes the underlying method exactly once
  and rejects with that error at once: no handle is requested and nothing is waited for.
  Both renditions of the module behave so.
\<close>

theorem overloaded_not_retried:
  assumes "Boolean (optChain e ''overloaded'')
           \<or> (\<exists>before after. String e = before @ ''Durable Object is overloaded'' @ after)"
      and "1 < maxAttempts (withRetry_opts given)"
      and "case Option.bind given isRetryable_given of None \<Rightarrow> True | Some p \<Rightarrow> \<not> p e"
      and "rpc env target prop args w = (Inl e, w1)"
  shows "createStubProxy_call env (withRetry_opts given) target prop args (w, [])
           = (Inl e, (w1, [Invoked target prop args (Inl e)]))
       \<and> createStubProxy_call2 env (withRetry_opts2 given) target prop args (w, [])
           = (Inl e, (w1, [Invoked target prop args (Inl e)]))"
proof -
  have nb: "\<not> isErrorRetryable e" using assms(1) by (rule overloaded_not_builtin)
  have n1: "\<not> shouldRetry (withRetry_opts given) e"
    using nb assms(3) by (auto simp: shouldRetry_def withRetry_opts_isRetryable split: option.splits)
  have n2: "\<not> shouldRetry2 (withRetry_opts2 given) e"
    using nb assms(3) by (auto simp: shouldRetry2_def withRetry_opts_isRetryable split: option.splits)
  have le1: "int 1 \<le> maxAttempts (withRetry_opts given)" using assms(2) by simp
  have le2: "int 1 \<le> maxAttempts (withRetry_opts2 given)"
    using assms(2) by (simp add: withRetry_opts_isRetryable)
  have r: "rpc env target prop args (fst (w, [])) = (Inl e, w1)" using assms(4) by simp
  have sf: "stubFor env target 1 (w, []) = (target, (w, []))" by (simp add: stubFor_def)
  show ?thesis
    unfolding createStubProxy_call_def createStubProxy_call2_def
    using attemptLoop_throws[OF le1 r n1] attemptLoop2_throws[OF le2 sf r n2] by simp
qed

theorem overloaded_not_retried_witness:
  "(Boolean (optChain (createOverloadedError ''overloaded'') ''overloaded'')
      \<or> (\<exists>before after. String (createOverloadedError ''overloaded'')
             = before @ ''Durable Object is overloaded'' @ after))
   \<and> 1 < maxAttempts (withRetry_opts predicateNever)
   \<and> (case Option.bind predicateNever isRetryable_given
         of None \<Rightarrow> True | Some p \<Rightarrow> \<not> p (createOverloadedError ''overloaded''))
   \<and> rpc alwaysOverloaded 1 ''testMethod'' [] (0, 1)
        = (Inl (createOverloadedError ''overloaded''), (1, 1))
   \<and> createStubProxy_call alwaysOverloaded
        (withRetry_opts predicateNever)
        1 ''testMethod'' [] ((0, 1), [])
      = (Inl (createOverloadedError ''overloaded''),
         ((1, 1), [Invoked 1 ''testMethod'' [] (Inl (createOverloadedError ''overloaded''))]))
   \<and> createStubProxy_call2 alwaysOverloaded
        (withRetry_opts2 predicateNever)
        1 ''testMethod'' [] ((0, 1), [])
      = (Inl (createOverloadedError ''overloaded''),
         ((1, 1), [Invoked 1 ''testMethod'' [] (Inl (createOverloadedError ''overloaded''))]))"
proof -
  have a: "Boolean (optChain (createOverloadedError ''overloaded'') ''overloaded'')"
    by (simp add: createOverloadedError_def)
  have b: "1 < maxAttempts (withRetry_opts predicateNever)"
    by (simp add: withRetry_opts_def FAST_RETRY_def DEFAULT_OPTIONS_def)
  have c: "case Option.bind predicateNever isRetryable_given
         of None \<Rightarrow> True | Some p \<Rightarrow> \<not> p (createOverloadedError ''overloaded'')"
    by (simp add: neverRetryable_def)
  have d: "rpc alwaysOverloaded 1 ''testMethod'' [] (0, 1)
        = (Inl (createOverloadedError ''overloaded''), (1, 1))"
    by (simp add: createMockNamespace_def)
  from overloaded_not_retried[OF disjI1[OF a] b c d] a b c d show ?thesis by blast
qed

lemma attemptLoop_retry_iff:
  assumes lt: "int attempt < maxAttempts options"
      and r: "rpc env h prop args (fst s) = (Inl e, w1)"
  shows "\<exists>r w' evs. attemptLoop env options prop args attempt lastError h s = (r, (w', snd s @ evs))
           \<and> (2 \<le> length (outcomesOf evs) \<longleftrightarrow> shouldRetry options e)"
proof (cases "shouldRetry options e")
  case False
  from lt have le: "int attempt \<le> maxAttempts options" by simp
  from attemptLoop_throws[OF le r False] False show ?thesis by simp
next
  case sr: True
  let ?s1 = "(w1, snd s @ [Invoked h prop args (Inl e)])"
  obtain h' s' where af: "afterFailure env options attempt ?s1 = (h', s')" by (metis surj_pair)
  then obtain w2 d where s': "s' = (w2, snd ?s1 @ [Acquired h', Waited d])"
    by (auto simp: afterFailure_eq)
  have step: "attemptLoop env options prop args attempt lastError h s
                = attemptLoop env options prop args (attempt + 1) e h' s'"
    using attemptLoop_retries[OF lt r sr] af by simp
  from lt have le': "int (attempt + 1) \<le> maxAttempts options" by simp
  from attemptLoop_extends[OF refl, of env options "prop" args "attempt + 1" e h' s'] le'
  obtain r2 w' evs where
    run: "attemptLoop env options prop args (attempt + 1) e h' s' = (r2, (w', snd s' @ evs))"
    and ne: "outcomesOf evs \<noteq> []" by blast
  from ne have "1 \<le> length (outcomesOf evs)" by (cases "outcomesOf evs") simp_all
  then have "2 \<le> length (outcomesOf ([Invoked h prop args (Inl e), Acquired h', Waited d] @ evs))"
    by simp
  moreover have "attemptLoop env options prop args attempt lastError h s
      = (r2, (w', snd s @ ([Invoked h prop args (Inl e), Acquired h', Waited d] @ evs)))"
    using step run by (simp add: s')
  ultimately show ?thesis using sr by blast
qed

lemma attemptLoop2_retry_iff:
  assumes lt: "int attempt < maxAttempts options"
      and sf: "stubFor env target attempt s = (h, s0)"
      and r: "rpc env h prop args (fst s0) = (Inl e, w1)"
  shows "\<exists>r w' evs. attemptLoop2 env options target prop args attempt lastError s
                        = (r, (w', snd s @ evs))
           \<and> (2 \<le> length (outcomesOf evs) \<longleftrightarrow> shouldRetry2 options e)"
proof -
  from sf obtain pre where s0: "snd s0 = snd s @ pre" "outcomesOf pre = []"
    by (auto simp: stubFor_eq split: if_splits)
  show ?thesis
  proof (cases "shouldRetry2 options e")
    case False
    from lt have le: "int attempt \<le> maxAttempts options" by simp
    from attemptLoop2_throws[OF le sf r False] False show ?thesis by (simp add: s0)
  next
    case sr: True
    let ?s1 = "(w1, snd s0 @ [Invoked h prop args (Inl e)])"
    obtain w2 d where s': "afterFailure2 env options attempt ?s1 = (w2, snd ?s1 @ [Waited d])"
      by (auto simp: afterFailure2_eq)
    let ?s' = "(w2, snd ?s1 @ [Waited d])"
    have step: "attemptLoop2 env options target prop args attempt lastError s
                  = attemptLoop2 env options target prop args (attempt + 1) e ?s'"
      using attemptLoop2_retries[OF lt sf r sr] s' by simp
    from lt have le': "int (attempt + 1) \<le> maxAttempts options" by simp
    from attemptLoop2_extends[OF refl, of env options target "prop" args "attempt + 1" e ?s'] le'
    obtain r2 w' evs where
      run: "attemptLoop2 env options target prop args (attempt + 1) e ?s' = (r2, (w', snd ?s' @ evs))"
      and ne: "outcomesOf evs \<noteq> []" by blast
    from ne have "1 \<le> length (outcomesOf evs)" by (cases "outcomesOf evs") simp_all
    then have "2 \<le> length (outcomesOf (pre @ [Invoked h prop args (Inl e), Waited d] @ evs))"
      by (simp add: s0)
    moreover have "attemptLoop2 env options target prop args attempt lastError s
        = (r2, (w', snd s @ (pre @ [Invoked h prop args (Inl e), Waited d] @ evs)))"
      using step run by (simp add: s0)
    ultimately show ?thesis using sr by blast
  qed
qed

text \<open>
  Claim C1, as stated, covers every configuration that carries a predicate. In the second
  rendition of the module \<^verbatim>\<open>withRetry\<close> puts the caller's predicate in the place of the
  built-in rule (line 321), so a predicate that returns false suppresses the retry of an
  error the built-in rule accepts: with the default budget of 3 attempts and the test
  suite's retryable error, the method is invoked once and the call rejects.
\<close>

theorem predicate_false_suppresses_retry:
  "isErrorRetryable (createRetryableError ''transient'')
   \<and> \<not> neverRetryable (createRetryableError ''transient'')
   \<and> 1 < maxAttempts (withRetry_opts2 predicateNever)
   \<and> createStubProxy_call2 alwaysTransient
        (withRetry_opts2 predicateNever)
        1 ''testMethod'' [] ((0, 1), [])
      = (Inl (createRetryableError ''transient''),
         ((1, 1), [Invoked 1 ''testMethod'' [] (Inl (createRetryableError ''transient''))]))"
  by (simp add: createStubProxy_call2_def attemptLoop2.simps invoke_def acquire_def draw_def
        scheduler_wait_def jitterBackoff_oneHalf createMockNamespace_def withRetry_opts2_def
        FAST_RETRY_def neverRetryable_def createRetryableError_def isErrorRetryable_def
        DEFAULT_OPTIONS_def)

text \<open>
  Claim C1, amended. Let the configuration carry a caller-supplied predicate \<open>p\<close>, let
  the budget permit another attempt, and let the invocation of the current attempt reject
  with \<open>e\<close>. In the first rendition of the module (lines 80 to 118) the method is invoked
  again if and only if the built-in rule accepts \<open>e\<close> or \<open>p e\<close> holds; there a predicate
  that returns false never suppresses the retry of an error the built-in rule accepts.
  In the second rendition (lines 265 to 292 with the options of lines 318 to 322) the
  method is invoked again if and only if \<open>p e\<close> holds.
\<close>

theorem retry_decision:
  assumes "isRetryable_given given = Some p"
      and "int attempt < maxAttempts (withRetry_opts (Some given))"
  shows "(rpc env h prop args (fst s) = (Inl e, w1) \<longrightarrow>
            (\<exists>r w' evs. attemptLoop env (withRetry_opts (Some given)) prop args attempt lastError h s
                           = (r, (w', snd s @ evs))
               \<and> (2 \<le> length (outcomesOf evs) \<longleftrightarrow> isErrorRetryable e \<or> p e)))
       \<and> (stubFor env target attempt s = (h2, s0) \<and> rpc env h2 prop args (fst s0) = (Inl e, w1) \<longrightarrow>
            (\<exists>r w' evs. attemptLoop2 env (withRetry_opts2 (Some given)) target prop args attempt lastError s
                           = (r, (w', snd s @ evs))
               \<and> (2 \<le> length (outcomesOf evs) \<longleftrightarrow> p e)))"
proof (intro conjI impI)
  assume r: "rpc env h prop args (fst s) = (Inl e, w1)"
  have "shouldRetry (withRetry_opts (Some given)) e \<longleftrightarrow> isErrorRetryable e \<or> p e"
    using assms(1) by (simp add: shouldRetry_def withRetry_opts_isRetryable)
  with attemptLoop_retry_iff[OF assms(2) r, of lastError]
  show "\<exists>r w' evs. attemptLoop env (withRetry_opts (Some given)) prop args attempt lastError h s
                           = (r, (w', snd s @ evs))
               \<and> (2 \<le> length (outcomesOf evs) \<longleftrightarrow> isErrorRetryable e \<or> p e)" by simp
next
  assume a: "stubFor env target attempt s = (h2, s0) \<and> rpc env h2 prop args (fst s0) = (Inl e, w1)"
  have lt: "int attempt < maxAttempts (withRetry_opts2 (Some given))"
    using assms(2) by (simp add: withRetry_opts_isRetryable)
  have "shouldRetry2 (withRetry_opts2 (Some given)) e \<longleftrightarrow> p e"
    using assms(1) by (simp add: shouldRetry2_def withRetry_opts_isRetryable)
  with attemptLoop2_retry_iff[OF lt conjunct1[OF a] conjunct2[OF a], of lastError]
  show "\<exists>r w' evs. attemptLoop2 env (withRetry_opts2 (Some given)) target prop args attempt lastError s
                           = (r, (w', snd s @ evs))
               \<and> (2 \<le> length (outcomesOf evs) \<longleftrightarrow> p e)" by simp
qed


theorem retry_decision_witness:
  "isRetryable_given (FAST_RETRY\<lparr>isRetryable_given := Some neverRetryable\<rparr>) = Some neverRetryable
   \<and> int 1 < maxAttempts (withRetry_opts predicateNever)
   \<and> rpc failsOnceThenSucceeds
         1 ''testMethod'' [] (fst ((0, 1), []))
        = (Inl (createRetryableError ''transient-1''), (1, 1))
   \<and> stubFor failsOnceThenSucceeds
         1 1 ((0, 1), []) = (1, ((0, 1), []))
   \<and> (\<exists>r w' evs.
         attemptLoop failsOnceThenSucceeds
           (withRetry_opts predicateNever)
           ''testMethod'' [] 1 ThrownUndefined 1 ((0, 1), [])
          = (r, (w', snd ((0::nat, 1::nat), []) @ evs))
         \<and> (2 \<le> length (outcomesOf evs)
              \<longleftrightarrow> isErrorRetryable (createRetryableError ''transient-1'')
                    \<or> neverRetryable (createRetryableError ''transient-1'')))
   \<and> (\<exists>r w' evs.
         attemptLoop2 failsOnceThenSucceeds
           (withRetry_opts2 predicateNever)
           1 ''testMethod'' [] 1 ThrownUndefined ((0, 1), [])
          = (r, (w', snd ((0::nat, 1::nat), []) @ evs))
         \<and> (2 \<le> length (outcomesOf evs)
              \<longleftrightarrow> neverRetryable (createRetryableError ''transient-1'')))"
proof -
  have a: "isRetryable_given (FAST_RETRY\<lparr>isRetryable_given := Some neverRetryable\<rparr>) = Some neverRetryable"
    by simp
  have b: "int 1 < maxAttempts (withRetry_opts predicateNever)"
    by (simp add: withRetry_opts_def FAST_RETRY_def DEFAULT_OPTIONS_def)
  have c: "rpc failsOnceThenSucceeds
         1 ''testMethod'' [] (fst ((0, 1), []))
        = (Inl (createRetryableError ''transient-1''), (1, 1))"
    by (simp add: createMockNamespace_def)
  have d: "stubFor failsOnceThenSucceeds
         1 1 ((0, 1), []) = (1, ((0, 1), []))"
    by (simp add: stubFor_def)
  note t = retry_decision[OF a b]
  have e: "\<exists>r w' evs.
         attemptLoop failsOnceThenSucceeds
           (withRetry_opts predicateNever)
           ''testMethod'' [] 1 ThrownUndefined 1 ((0, 1), [])
          = (r, (w', snd ((0::nat, 1::nat), []) @ evs))
         \<and> (2 \<le> length (outcomesOf evs)
              \<longleftrightarrow> isErrorRetryable (createRetryableError ''transient-1'')
                    \<or> neverRetryable (createRetryableError ''transient-1''))"
    by (rule conjunct1[OF t, rule_format, OF c])
  have f: "\<exists>r w' evs.
         attemptLoop2 failsOnceThenSucceeds
           (withRetry_opts2 predicateNever)
           1 ''testMethod'' [] 1 ThrownUndefined ((0, 1), [])
          = (r, (w', snd ((0::nat, 1::nat), []) @ evs))
         \<and> (2 \<le> length (outcomesOf evs)
              \<longleftrightarrow> neverRetryable (createRetryableError ''transient-1''))"
    by (rule conjunct2[OF t, rule_format, OF conjI[OF d c]])
  from a b c d e f show ?thesis by (intro conjI)
qed

lemma shouldRetry_iff:
  "shouldRetry options e \<longleftrightarrow> isErrorRetryable e \<or> (\<exists>p. isRetryable options = Some p \<and> p e)"
  by (cases "isRetryable options") (simp_all add: shouldRetry_def)

lemma attemptLoop_always_rejects:
  assumes rej: "\<forall>h w. \<exists>e w'. rpc env h prop args w = (Inl e, w') \<and> shouldRetry options e"
  shows "int a \<le> maxAttempts options \<Longrightarrow> n = nat (maxAttempts options - int a) \<Longrightarrow>
     \<exists>e w' evs. attemptLoop env options prop args a lastError h s = (Inl e, (w', snd s @ evs))
        \<and> length (outcomesOf evs) = n + 1
        \<and> last (outcomesOf evs) = Inl e
        \<and> map snd (callsOf evs) = replicate (n + 1) (prop, args)"
proof (induction n arbitrary: a lastError h s)
  case 0
  then have eq: "int a = maxAttempts options" by simp
  from rej obtain e w1 where r: "rpc env h prop args (fst s) = (Inl e, w1)" by blast
  show ?case
    using attemptLoop_budget_spent[OF eq r] by simp
next
  case (Suc n)
  then have lt: "int a < maxAttempts options" by simp
  from rej obtain e w1 where r: "rpc env h prop args (fst s) = (Inl e, w1)"
    and sr: "shouldRetry options e" by blast
  let ?s1 = "(w1, snd s @ [Invoked h prop args (Inl e)])"
  obtain h' s' where af: "afterFailure env options a ?s1 = (h', s')" by (metis surj_pair)
  then obtain w2 d where s': "s' = (w2, snd ?s1 @ [Acquired h', Waited d])"
    by (auto simp: afterFailure_eq)
  have step: "attemptLoop env options prop args a lastError h s
                = attemptLoop env options prop args (a + 1) e h' s'"
    using attemptLoop_retries[OF lt r sr] af by simp
  have "int (a + 1) \<le> maxAttempts options" "n = nat (maxAttempts options - int (a + 1))"
    using Suc.prems by simp_all
  from Suc.IH[OF this, of e h' s']
  obtain e' w' evs where
    run: "attemptLoop env options prop args (a + 1) e h' s' = (Inl e', (w', snd s' @ evs))"
    and len: "length (outcomesOf evs) = n + 1"
    and lst: "last (outcomesOf evs) = Inl e'"
    and cls: "map snd (callsOf evs) = replicate (n + 1) (prop, args)" by blast
  from len have ne: "outcomesOf evs \<noteq> []" by auto
  let ?evs = "[Invoked h prop args (Inl e), Acquired h', Waited d] @ evs"
  have "attemptLoop env options prop args a lastError h s = (Inl e', (w', snd s @ ?evs))"
    using step run by (simp add: s')
  moreover have "length (outcomesOf ?evs) = Suc n + 1" using len by simp
  moreover have "last (outcomesOf ?evs) = Inl e'" using lst ne by simp
  moreover have "map snd (callsOf ?evs) = replicate (Suc n + 1) (prop, args)" using cls by simp
  ultimately show ?case by blast
qed

lemma attemptLoop2_always_rejects:
  assumes rej: "\<forall>h w. \<exists>e w'. rpc env h prop args w = (Inl e, w') \<and> shouldRetry2 options e"
  shows "int a \<le> maxAttempts options \<Longrightarrow> n = nat (maxAttempts options - int a) \<Longrightarrow>
     \<exists>e w' evs. attemptLoop2 env options target prop args a lastError s = (Inl e, (w', snd s @ evs))
        \<and> length (outcomesOf evs) = n + 1
        \<and> last (outcomesOf evs) = Inl e
        \<and> map snd (callsOf evs) = replicate (n + 1) (prop, args)"
proof (induction n arbitrary: a lastError s)
  case 0
  then have eq: "int a = maxAttempts options" by simp
  obtain h s0 where sf: "stubFor env target a s = (h, s0)" by (metis surj_pair)
  then obtain pre where s0: "snd s0 = snd s @ pre" "outcomesOf pre = []" "callsOf pre = []"
    by (auto simp: stubFor_eq split: if_splits)
  from rej obtain e w1 where r: "rpc env h prop args (fst s0) = (Inl e, w1)" by blast
  let ?evs = "pre @ [Invoked h prop args (Inl e)]"
  have "attemptLoop2 env options target prop args a lastError s = (Inl e, (w1, snd s @ ?evs))"
    using attemptLoop2_budget_spent[OF eq sf r] by (simp add: s0)
  moreover have "length (outcomesOf ?evs) = 0 + 1" "last (outcomesOf ?evs) = Inl e"
    "map snd (callsOf ?evs) = replicate (0 + 1) (prop, args)" by (simp_all add: s0)
  ultimately show ?case by blast
next
  case (Suc n)
  then have lt: "int a < maxAttempts options" by simp
  obtain h s0 where sf: "stubFor env target a s = (h, s0)" by (metis surj_pair)
  then obtain pre where s0: "snd s0 = snd s @ pre" "outcomesOf pre = []" "callsOf pre = []"
    by (auto simp: stubFor_eq split: if_splits)
  from rej obtain e w1 where r: "rpc env h prop args (fst s0) = (Inl e, w1)"
    and sr: "shouldRetry2 options e" by blast
  let ?s1 = "(w1, snd s0 @ [Invoked h prop args (Inl e)])"
  obtain w2 d where s': "afterFailure2 env options a ?s1 = (w2, snd ?s1 @ [Waited d])"
    by (auto simp: afterFailure2_eq)
  let ?s' = "(w2, snd ?s1 @ [Waited d])"
  have step: "attemptLoop2 env options target prop args a lastError s
                = attemptLoop2 env options target prop args (a + 1) e ?s'"
    using attemptLoop2_retries[OF lt sf r sr] s' by simp
  have "int (a + 1) \<le> maxAttempts options" "n = nat (maxAttempts options - int (a + 1))"
    using Suc.prems by simp_all
  from Suc.IH[OF this, of e ?s']
  obtain e' w' evs where
    run: "attemptLoop2 env options target prop args (a + 1) e ?s' = (Inl e', (w', snd ?s' @ evs))"
    and len: "length (outcomesOf evs) = n + 1"
    and lst: "last (outcomesOf evs) = Inl e'"
    and cls: "map snd (callsOf evs) = replicate (n + 1) (prop, args)" by blast
  from len have ne: "outcomesOf evs \<noteq> []" by auto
  let ?evs = "pre @ [Invoked h prop args (Inl e), Waited d] @ evs"
  have "attemptLoop2 env options target prop args a lastError s = (Inl e', (w', snd s @ ?evs))"
    using step run by (simp add: s0)
  moreover have "length (outcomesOf ?evs) = Suc n + 1" using len by (simp add: s0)
  moreover have "last (outcomesOf ?evs) = Inl e'" using lst ne by (simp add: s0)
  moreover have "map snd (callsOf ?evs) = replicate (Suc n + 1) (prop, args)"
    using cls by (simp add: s0)
  ultimately show ?case by blast
qed

text \<open>
  Claim C2. Let \<^verbatim>\<open>maxAttempts\<close> be \<open>N \<ge> 1\<close> and let every invocation of the method
  reject with an error that the configuration's classifier accepts (in the first rendition
  the built-in rule or the predicate, in the second the resolved predicate). Then the call
  rejects; the record shows exactly \<open>N\<close> invocations, each of the same method with the
  original arguments; and the value the call rejects with is the very value the \<open>N\<close>-th
  invocation rejected with. Both renditions of the module behave so.
\<close>

theorem exhaustion_rethrows_last_error:
  "(1 \<le> maxAttempts options
      \<and> (\<forall>h w. \<exists>e w'. rpc env h prop args w = (Inl e, w')
              \<and> (isErrorRetryable e \<or> (\<exists>p. isRetryable options = Some p \<and> p e)))
     \<longrightarrow> (\<exists>e w' log. createStubProxy_call env options target prop args (w0, []) = (Inl e, (w', log))
            \<and> length (outcomesOf log) = nat (maxAttempts options)
            \<and> outcomesOf log ! (nat (maxAttempts options) - 1) = Inl e
            \<and> map snd (callsOf log) = replicate (nat (maxAttempts options)) (prop, args)))
   \<and> (1 \<le> maxAttempts options2
      \<and> (\<forall>h w. \<exists>e w'. rpc env h prop args w = (Inl e, w') \<and> isRetryable options2 e)
     \<longrightarrow> (\<exists>e w' log. createStubProxy_call2 env options2 target prop args (w0, []) = (Inl e, (w', log))
            \<and> length (outcomesOf log) = nat (maxAttempts options2)
            \<and> outcomesOf log ! (nat (maxAttempts options2) - 1) = Inl e
            \<and> map snd (callsOf log) = replicate (nat (maxAttempts options2)) (prop, args)))"
proof (intro conjI impI)
  assume a: "1 \<le> maxAttempts options
      \<and> (\<forall>h w. \<exists>e w'. rpc env h prop args w = (Inl e, w')
              \<and> (isErrorRetryable e \<or> (\<exists>p. isRetryable options = Some p \<and> p e)))"
  then have rej: "\<forall>h w. \<exists>e w'. rpc env h prop args w = (Inl e, w') \<and> shouldRetry options e"
    by (simp add: shouldRetry_iff)
  have le: "int 1 \<le> maxAttempts options" using a by simp
  from attemptLoop_always_rejects[OF rej le refl, of ThrownUndefined target "(w0, [])"]
  obtain e w' evs where
    run: "attemptLoop env options prop args 1 ThrownUndefined target (w0, []) = (Inl e, (w', evs))"
    and len: "length (outcomesOf evs) = nat (maxAttempts options - int 1) + 1"
    and lst: "last (outcomesOf evs) = Inl e"
    and cls: "map snd (callsOf evs) = replicate (nat (maxAttempts options - int 1) + 1) (prop, args)"
    by auto
  have n: "nat (maxAttempts options - int 1) + 1 = nat (maxAttempts options)" using le by linarith
  from len n have ne: "outcomesOf evs \<noteq> []" by auto
  have len': "length (outcomesOf evs) = nat (maxAttempts options)" using len unfolding n .
  have cls': "map snd (callsOf evs) = replicate (nat (maxAttempts options)) (prop, args)"
    using cls unfolding n .
  have "outcomesOf evs ! (length (outcomesOf evs) - 1) = Inl e"
    using lst ne by (simp add: last_conv_nth)
  then have "outcomesOf evs ! (nat (maxAttempts options) - 1) = Inl e" unfolding len' .
  then show "\<exists>e w' log. createStubProxy_call env options target prop args (w0, []) = (Inl e, (w', log))
            \<and> length (outcomesOf log) = nat (maxAttempts options)
            \<and> outcomesOf log ! (nat (maxAttempts options) - 1) = Inl e
            \<and> map snd (callsOf log) = replicate (nat (maxAttempts options)) (prop, args)"
    using run len' cls' unfolding createStubProxy_call_def by blast
next
  assume a: "1 \<le> maxAttempts options2
      \<and> (\<forall>h w. \<exists>e w'. rpc env h prop args w = (Inl e, w') \<and> isRetryable options2 e)"
  then have rej: "\<forall>h w. \<exists>e w'. rpc env h prop args w = (Inl e, w') \<and> shouldRetry2 options2 e"
    by (simp add: shouldRetry2_def)
  have le: "int 1 \<le> maxAttempts options2" using a by simp
  from attemptLoop2_always_rejects[OF rej le refl, of target ThrownUndefined "(w0, [])"]
  obtain e w' evs where
    run: "attemptLoop2 env options2 target prop args 1 ThrownUndefined (w0, []) = (Inl e, (w', evs))"
    and len: "length (outcomesOf evs) = nat (maxAttempts options2 - int 1) + 1"
    and lst: "last (outcomesOf evs) = Inl e"
    and cls: "map snd (callsOf evs) = replicate (nat (maxAttempts options2 - int 1) + 1) (prop, args)"
    by auto
  have n: "nat (maxAttempts options2 - int 1) + 1 = nat (maxAttempts options2)" using le by linarith
  from len n have ne: "outcomesOf evs \<noteq> []" by auto
  have len': "length (outcomesOf evs) = nat (maxAttempts options2)" using len unfolding n .
  have cls': "map snd (callsOf evs) = replicate (nat (maxAttempts options2)) (prop, args)"
    using cls unfolding n .
  have "outcomesOf evs ! (length (outcomesOf evs) - 1) = Inl e"
    using lst ne by (simp add: last_conv_nth)
  then have "outcomesOf evs ! (nat (maxAttempts options2) - 1) = Inl e" unfolding len' .
  then show "\<exists>e w' log. createStubProxy_call2 env options2 target prop args (w0, []) = (Inl e, (w', log))
            \<and> length (outcomesOf log) = nat (maxAttempts options2)
            \<and> outcomesOf log ! (nat (maxAttempts options2) - 1) = Inl e
            \<and> map snd (callsOf log) = replicate (nat (maxAttempts options2)) (prop, args)"
    using run len' cls' unfolding createStubProxy_call2_def by blast
qed


theorem exhaustion_rethrows_last_error_witness:
  "(1 \<le> maxAttempts (withRetry_opts twoAttempts)
      \<and> (\<forall>h w. \<exists>e w'. rpc alwaysFails h ''testMethod'' [] w = (Inl e, w')
              \<and> (isErrorRetryable e \<or> (\<exists>p. isRetryable (withRetry_opts twoAttempts) = Some p \<and> p e))))
   \<and> (\<exists>e w' log. createStubProxy_call alwaysFails (withRetry_opts twoAttempts) 1 ''testMethod'' [] ((0, 1), []) = (Inl e, (w', log))
            \<and> length (outcomesOf log) = nat (maxAttempts (withRetry_opts twoAttempts))
            \<and> outcomesOf log ! (nat (maxAttempts (withRetry_opts twoAttempts)) - 1) = Inl e
            \<and> map snd (callsOf log) = replicate (nat (maxAttempts (withRetry_opts twoAttempts))) (''testMethod'', []))
   \<and> (1 \<le> maxAttempts (withRetry_opts2 twoAttempts)
      \<and> (\<forall>h w. \<exists>e w'. rpc alwaysFails h ''testMethod'' [] w = (Inl e, w')
              \<and> isRetryable (withRetry_opts2 twoAttempts) e))
   \<and> (\<exists>e w' log. createStubProxy_call2 alwaysFails (withRetry_opts2 twoAttempts) 1 ''testMethod'' [] ((0, 1), []) = (Inl e, (w', log))
            \<and> length (outcomesOf log) = nat (maxAttempts (withRetry_opts2 twoAttempts))
            \<and> outcomesOf log ! (nat (maxAttempts (withRetry_opts2 twoAttempts)) - 1) = Inl e
            \<and> map snd (callsOf log) = replicate (nat (maxAttempts (withRetry_opts2 twoAttempts))) (''testMethod'', []))
   \<and> createStubProxy_call alwaysFails (withRetry_opts twoAttempts) 1 ''testMethod'' [] ((0, 1), [])
      = (Inl (createRetryableError ''always-fails''), ((2, 2), [Invoked 1 ''testMethod'' [] (Inl (createRetryableError ''always-fails'')), Acquired 2, Waited (Finite 1),
                            Invoked 2 ''testMethod'' [] (Inl (createRetryableError ''always-fails''))]))
   \<and> createStubProxy_call2 alwaysFails (withRetry_opts2 twoAttempts) 1 ''testMethod'' [] ((0, 1), [])
      = (Inl (createRetryableError ''always-fails''), ((2, 2), [Invoked 1 ''testMethod'' [] (Inl (createRetryableError ''always-fails'')), Waited (Finite 1), Acquired 2,
                            Invoked 2 ''testMethod'' [] (Inl (createRetryableError ''always-fails''))]))"
proof -
  have re: "isErrorRetryable (createRetryableError ''always-fails'')"
    by (simp add: isErrorRetryable_def createRetryableError_def)
  have h1: "1 \<le> maxAttempts (withRetry_opts twoAttempts)
      \<and> (\<forall>h w. \<exists>e w'. rpc alwaysFails h ''testMethod'' [] w = (Inl e, w')
              \<and> (isErrorRetryable e \<or> (\<exists>p. isRetryable (withRetry_opts twoAttempts) = Some p \<and> p e)))"
    using re by (simp add: createMockNamespace_def withRetry_opts_def FAST_RETRY_def)
  have h2: "1 \<le> maxAttempts (withRetry_opts2 twoAttempts)
      \<and> (\<forall>h w. \<exists>e w'. rpc alwaysFails h ''testMethod'' [] w = (Inl e, w')
              \<and> isRetryable (withRetry_opts2 twoAttempts) e)"
    using re by (simp add: createMockNamespace_def withRetry_opts2_def FAST_RETRY_def)
  note t = exhaustion_rethrows_last_error
  have c1: "\<exists>e w' log. createStubProxy_call alwaysFails (withRetry_opts twoAttempts) 1 ''testMethod'' [] ((0, 1), []) = (Inl e, (w', log))
            \<and> length (outcomesOf log) = nat (maxAttempts (withRetry_opts twoAttempts))
            \<and> outcomesOf log ! (nat (maxAttempts (withRetry_opts twoAttempts)) - 1) = Inl e
            \<and> map snd (callsOf log) = replicate (nat (maxAttempts (withRetry_opts twoAttempts))) (''testMethod'', [])"
    by (rule conjunct1[OF t, rule_format, OF h1])
  have c2: "\<exists>e w' log. createStubProxy_call2 alwaysFails (withRetry_opts2 twoAttempts) 1 ''testMethod'' [] ((0, 1), []) = (Inl e, (w', log))
            \<and> length (outcomesOf log) = nat (maxAttempts (withRetry_opts2 twoAttempts))
            \<and> outcomesOf log ! (nat (maxAttempts (withRetry_opts2 twoAttempts)) - 1) = Inl e
            \<and> map snd (callsOf log) = replicate (nat (maxAttempts (withRetry_opts2 twoAttempts))) (''testMethod'', [])"
    by (rule conjunct2[OF t, rule_format, OF h2])
  have e1: "createStubProxy_call alwaysFails (withRetry_opts twoAttempts) 1 ''testMethod'' [] ((0, 1), [])
      = (Inl (createRetryableError ''always-fails''), ((2, 2), [Invoked 1 ''testMethod'' [] (Inl (createRetryableError ''always-fails'')), Acquired 2, Waited (Finite 1),
                            Invoked 2 ''testMethod'' [] (Inl (createRetryableError ''always-fails''))]))"
    using re by (simp add: createStubProxy_call_def attemptLoop.simps invoke_def acquire_def draw_def
        scheduler_wait_def jitterBackoff_oneHalf createMockNamespace_def withRetry_opts_def
        FAST_RETRY_def)
  have e2: "createStubProxy_call2 alwaysFails (withRetry_opts2 twoAttempts) 1 ''testMethod'' [] ((0, 1), [])
      = (Inl (createRetryableError ''always-fails''), ((2, 2), [Invoked 1 ''testMethod'' [] (Inl (createRetryableError ''always-fails'')), Waited (Finite 1), Acquired 2,
                            Invoked 2 ''testMethod'' [] (Inl (createRetryableError ''always-fails''))]))"
    using re by (simp add: createStubProxy_call2_def attemptLoop2.simps invoke_def acquire_def draw_def
        scheduler_wait_def jitterBackoff_oneHalf createMockNamespace_def withRetry_opts2_def
        FAST_RETRY_def)
  show ?thesis
    by (rule conjI[OF h1 conjI[OF c1 conjI[OF h2 conjI[OF c2 conjI[OF e1 e2]]]]])
qed

lemma nextAttempt_eq:
  "nextAttempt env prop args (h, w) =
     (fst (getStub env (snd (rpc env h prop args w))),
      snd (random env (snd (getStub env (snd (rpc env h prop args w))))))"
  by (simp add: nextAttempt_def split: prod.splits)

lemma nextAttempt2_eq:
  "nextAttempt2 env prop args (h, w) =
     (fst (getStub env (snd (random env (snd (rpc env h prop args w))))),
      snd (getStub env (snd (random env (snd (rpc env h prop args w))))))"
  by (simp add: nextAttempt2_def split: prod.splits)

lemma funpow_next_attempt:
  "1 \<le> a \<Longrightarrow> (next ^^ (a + 1 - 1)) x = next ((next ^^ (a - 1)) x)"
  by (cases a) simp_all

lemma rejectsThenResolves_rejects:
  "rejectsThenResolves outcome accepted k v \<Longrightarrow> 1 \<le> i \<Longrightarrow> i < k \<Longrightarrow>
     \<exists>e. outcome i = Inl e \<and> accepted e"
  unfolding rejectsThenResolves_def
  by (cases "outcome i") (auto split: sum.splits)

lemma rejectsThenResolves_resolves:
  "rejectsThenResolves outcome accepted k v \<Longrightarrow> outcome k = Inr v"
  unfolding rejectsThenResolves_def by simp

lemma attemptLoop_resolves_at:
  assumes scr: "rejectsThenResolves (outcomeOfAttempt (nextAttempt env prop args) env prop args target w0)
                  (shouldRetry options) k v"
      and bud: "int k \<le> maxAttempts options"
  shows "1 \<le> a \<Longrightarrow> a \<le> k \<Longrightarrow> n = k - a \<Longrightarrow>
         (nextAttempt env prop args ^^ (a - 1)) (target, w0) = (h, fst s) \<Longrightarrow>
     \<exists>w' evs. attemptLoop env options prop args a lastError h s = (Inr v, (w', snd s @ evs))
        \<and> length (outcomesOf evs) = n + 1
        \<and> map snd (callsOf evs) = replicate (n + 1) (prop, args)
        \<and> map fst (callsOf evs) = h # acquiredOf evs"
proof (induction n arbitrary: a lastError h s)
  case 0
  then have ak: "a = k" by simp
  have "outcomeOfAttempt (nextAttempt env prop args) env prop args target w0 k = Inr v"
    using scr by (rule rejectsThenResolves_resolves)
  then have "fst (rpc env h prop args (fst s)) = Inr v"
    using "0.prems"(4) unfolding outcomeOfAttempt_def ak by simp
  then obtain w1 where r: "rpc env h prop args (fst s) = (Inr v, w1)"
    by (metis prod.collapse)
  have le: "int a \<le> maxAttempts options" using 0 bud by simp
  let ?evs = "[Invoked h prop args (Inr v)]"
  have run: "attemptLoop env options prop args a lastError h s = (Inr v, (w1, snd s @ ?evs))"
    using attemptLoop_resolves[OF le r] .
  show ?case
    by (rule exI[of _ w1], rule exI[of _ ?evs]) (simp add: run)
next
  case (Suc n)
  then have ak: "a < k" by simp
  from rejectsThenResolves_rejects[OF scr Suc.prems(1) ak]
  obtain e where "outcomeOfAttempt (nextAttempt env prop args) env prop args target w0 a = Inl e"
    and sr: "shouldRetry options e" by auto
  then have "fst (rpc env h prop args (fst s)) = Inl e"
    using Suc.prems(4) unfolding outcomeOfAttempt_def by simp
  then obtain w1 where r: "rpc env h prop args (fst s) = (Inl e, w1)"
    by (metis prod.collapse)
  have lt: "int a < maxAttempts options" using ak bud by simp
  let ?s1 = "(w1, snd s @ [Invoked h prop args (Inl e)])"
  obtain h' s' where af: "afterFailure env options a ?s1 = (h', s')" by (metis surj_pair)
  then obtain d where h': "h' = fst (getStub env w1)"
    and s': "s' = (snd (random env (snd (getStub env w1))), snd ?s1 @ [Acquired h', Waited d])"
    by (auto simp: afterFailure_eq)
  have nx: "(nextAttempt env prop args ^^ (a + 1 - 1)) (target, w0) = (h', fst s')"
    unfolding funpow_next_attempt[OF Suc.prems(1)] Suc.prems(4) nextAttempt_eq r h' s' by simp
  have step: "attemptLoop env options prop args a lastError h s
                = attemptLoop env options prop args (a + 1) e h' s'"
    using attemptLoop_retries[OF lt r sr] af by simp
  have "1 \<le> a + 1" "a + 1 \<le> k" "n = k - (a + 1)"
    using Suc.prems ak by simp_all
  from Suc.IH[OF this nx, of e]
  obtain w' evs where
    run: "attemptLoop env options prop args (a + 1) e h' s' = (Inr v, (w', snd s' @ evs))"
    and len: "length (outcomesOf evs) = n + 1"
    and cls: "map snd (callsOf evs) = replicate (n + 1) (prop, args)"
    and hs: "map fst (callsOf evs) = h' # acquiredOf evs" by auto
  let ?evs = "[Invoked h prop args (Inl e), Acquired h', Waited d] @ evs"
  have run': "attemptLoop env options prop args a lastError h s = (Inr v, (w', snd s @ ?evs))"
    using step run by (simp add: s')
  show ?case
    by (rule exI[of _ w'], rule exI[of _ ?evs]) (simp add: run' len cls hs)
qed

lemma attemptLoop2_resolves_at:
  assumes scr: "rejectsThenResolves (outcomeOfAttempt (nextAttempt2 env prop args) env prop args target w0)
                  (shouldRetry2 options) k v"
      and bud: "int k \<le> maxAttempts options"
  shows "1 \<le> a \<Longrightarrow> a \<le> k \<Longrightarrow> n = k - a \<Longrightarrow>
         (nextAttempt2 env prop args ^^ (a - 1)) (target, w0)
            = (fst (stubFor env target a s), fst (snd (stubFor env target a s))) \<Longrightarrow>
     \<exists>w' evs. attemptLoop2 env options target prop args a lastError s = (Inr v, (w', snd s @ evs))
        \<and> length (outcomesOf evs) = n + 1
        \<and> map snd (callsOf evs) = replicate (n + 1) (prop, args)
        \<and> map fst (callsOf evs) = (if a = 1 then [target] else []) @ acquiredOf evs"
proof (induction n arbitrary: a lastError s)
  case 0
  obtain h s0 where sf: "stubFor env target a s = (h, s0)" by (metis surj_pair)
  then obtain pre where s0: "snd s0 = snd s @ pre" "outcomesOf pre = []" "callsOf pre = []"
      "[h] = (if a = 1 then [target] else []) @ acquiredOf pre"
    by (auto simp: stubFor_eq split: if_splits)
  have st: "(nextAttempt2 env prop args ^^ (a - 1)) (target, w0) = (h, fst s0)"
    using "0.prems"(4) by (simp add: sf)
  from 0 have ak: "a = k" by simp
  have "outcomeOfAttempt (nextAttempt2 env prop args) env prop args target w0 k = Inr v"
    using scr by (rule rejectsThenResolves_resolves)
  then have "fst (rpc env h prop args (fst s0)) = Inr v"
    using st unfolding outcomeOfAttempt_def ak by simp
  then obtain w1 where r: "rpc env h prop args (fst s0) = (Inr v, w1)"
    by (metis prod.collapse)
  have le: "int a \<le> maxAttempts options" using 0 bud by simp
  let ?evs = "pre @ [Invoked h prop args (Inr v)]"
  have run: "attemptLoop2 env options target prop args a lastError s = (Inr v, (w1, snd s @ ?evs))"
    using attemptLoop2_resolves[OF le sf r] by (simp add: s0)
  have o: "length (outcomesOf ?evs) = 0 + 1"
    "map snd (callsOf ?evs) = replicate (0 + 1) (prop, args)" by (simp_all add: s0)
  have hh: "map fst (callsOf ?evs) = (if a = 1 then [target] else []) @ acquiredOf ?evs"
    using s0(4) by (simp add: s0(3))
  show ?case
    by (rule exI[of _ w1], rule exI[of _ ?evs]) (use run o hh in blast)
next
  case (Suc n)
  obtain h s0 where sf: "stubFor env target a s = (h, s0)" by (metis surj_pair)
  then obtain pre where s0: "snd s0 = snd s @ pre" "outcomesOf pre = []" "callsOf pre = []"
      "[h] = (if a = 1 then [target] else []) @ acquiredOf pre"
    by (auto simp: stubFor_eq split: if_splits)
  have st: "(nextAttempt2 env prop args ^^ (a - 1)) (target, w0) = (h, fst s0)"
    using Suc.prems(4) by (simp add: sf)
  from Suc.prems have ak: "a < k" by simp
  from rejectsThenResolves_rejects[OF scr Suc.prems(1) ak]
  obtain e where "outcomeOfAttempt (nextAttempt2 env prop args) env prop args target w0 a = Inl e"
    and sr: "shouldRetry2 options e" by auto
  then have "fst (rpc env h prop args (fst s0)) = Inl e"
    using st unfolding outcomeOfAttempt_def by simp
  then obtain w1 where r: "rpc env h prop args (fst s0) = (Inl e, w1)"
    by (metis prod.collapse)
  have lt: "int a < maxAttempts options" using ak bud by simp
  let ?s1 = "(w1, snd s0 @ [Invoked h prop args (Inl e)])"
  obtain d where s': "afterFailure2 env options a ?s1 = (snd (random env w1), snd ?s1 @ [Waited d])"
    by (auto simp: afterFailure2_eq)
  let ?s' = "(snd (random env w1), snd ?s1 @ [Waited d])"
  have a1: "a + 1 \<noteq> 1" using Suc.prems(1) by simp
  have nx: "(nextAttempt2 env prop args ^^ (a + 1 - 1)) (target, w0)
              = (fst (stubFor env target (a + 1) ?s'), fst (snd (stubFor env target (a + 1) ?s')))"
    unfolding funpow_next_attempt[OF Suc.prems(1)] st nextAttempt2_eq r
    using a1 by (simp add: stubFor_eq)
  have step: "attemptLoop2 env options target prop args a lastError s
                = attemptLoop2 env options target prop args (a + 1) e ?s'"
    using attemptLoop2_retries[OF lt sf r sr] s' by simp
  have "1 \<le> a + 1" "a + 1 \<le> k" "n = k - (a + 1)"
    using Suc.prems ak by simp_all
  from Suc.IH[OF this nx, of e]
  obtain w' evs where
    run: "attemptLoop2 env options target prop args (a + 1) e ?s' = (Inr v, (w', snd ?s' @ evs))"
    and len: "length (outcomesOf evs) = n + 1"
    and cls: "map snd (callsOf evs) = replicate (n + 1) (prop, args)"
    and hs0: "map fst (callsOf evs) = (if a + 1 = 1 then [target] else []) @ acquiredOf evs" by auto
  from hs0 a1 have hs: "map fst (callsOf evs) = acquiredOf evs" by simp
  let ?evs = "pre @ [Invoked h prop args (Inl e), Waited d] @ evs"
  have run': "attemptLoop2 env options target prop args a lastError s = (Inr v, (w', snd s @ ?evs))"
    using step run by (simp add: s0)
  have o1: "length (outcomesOf ?evs) = Suc n + 1" using len by (simp add: s0)
  have o2: "map snd (callsOf ?evs) = replicate (Suc n + 1) (prop, args)"
    using cls by (simp add: s0)
  have hh: "map fst (callsOf ?evs) = (if a = 1 then [target] else []) @ acquiredOf ?evs"
  proof -
    have "map fst (callsOf ?evs) = [h] @ acquiredOf evs" using hs by (simp add: s0)
    also have "\<dots> = ((if a = 1 then [target] else []) @ acquiredOf pre) @ acquiredOf evs"
      using s0(4) by simp
    finally show ?thesis by simp
  qed
  show ?case
    by (rule exI[of _ w'], rule exI[of _ ?evs]) (use run' o1 o2 hh in blast)
qed

text \<open>
  Claim C4. Let \<^verbatim>\<open>maxAttempts\<close> be \<open>N \<ge> 1\<close> and \<open>1 \<le> k \<le> N\<close>. Let the attempts 1
  to \<open>k - 1\<close> of the call reject, each with an error the classifier accepts, and let
  attempt \<open>k\<close> resolve with \<open>v\<close>: what the method does on an attempt is what it does on
  the handle of that attempt, in the world the attempts before it left, whatever it would
  do on another handle or at another time. Then the call resolves with exactly \<open>v\<close>; the
  record shows exactly \<open>k\<close> invocations, each of the same method with the original
  arguments; exactly \<open>k - 1\<close> handles were requested from the getter; and the handles
  invoked on are the handle already held, then the requested ones in order. Both
  renditions of the module behave so.
\<close>

theorem resolves_on_attempt_k:
  "(1 \<le> k \<and> int k \<le> maxAttempts options
      \<and> rejectsThenResolves (outcomeOfAttempt (nextAttempt env prop args) env prop args target w0)
          (shouldRetry options) k v
     \<longrightarrow> (\<exists>w' log. createStubProxy_call env options target prop args (w0, []) = (Inr v, (w', log))
            \<and> length (outcomesOf log) = k
            \<and> map snd (callsOf log) = replicate k (prop, args)
            \<and> length (acquiredOf log) = k - 1
            \<and> map fst (callsOf log) = target # acquiredOf log))
   \<and> (1 \<le> k \<and> int k \<le> maxAttempts options2
      \<and> rejectsThenResolves (outcomeOfAttempt (nextAttempt2 env prop args) env prop args target w0)
          (shouldRetry2 options2) k v
     \<longrightarrow> (\<exists>w' log. createStubProxy_call2 env options2 target prop args (w0, []) = (Inr v, (w', log))
            \<and> length (outcomesOf log) = k
            \<and> map snd (callsOf log) = replicate k (prop, args)
            \<and> length (acquiredOf log) = k - 1
            \<and> map fst (callsOf log) = target # acquiredOf log))"
proof (intro conjI impI)
  assume a: "1 \<le> k \<and> int k \<le> maxAttempts options
      \<and> rejectsThenResolves (outcomeOfAttempt (nextAttempt env prop args) env prop args target w0)
          (shouldRetry options) k v"
  then have scr: "rejectsThenResolves (outcomeOfAttempt (nextAttempt env prop args) env prop args target w0)
          (shouldRetry options) k v"
    and bud: "int k \<le> maxAttempts options" and k1: "1 \<le> k"
    by simp_all
  have st: "(nextAttempt env prop args ^^ (1 - 1)) (target, w0) = (target, fst (w0, []))" by simp
  from attemptLoop_resolves_at[OF scr bud order_refl k1 refl st, of ThrownUndefined]
  obtain w' evs where
    run: "attemptLoop env options prop args 1 ThrownUndefined target (w0, []) = (Inr v, (w', evs))"
    and len: "length (outcomesOf evs) = k - 1 + 1"
    and cls: "map snd (callsOf evs) = replicate (k - 1 + 1) (prop, args)"
    and hs: "map fst (callsOf evs) = target # acquiredOf evs" by auto
  have k': "k - 1 + 1 = k" using k1 by simp
  have "length (map fst (callsOf evs)) = length (map snd (callsOf evs))" by simp
  then have acq: "length (acquiredOf evs) = k - 1" unfolding hs cls by simp
  show "\<exists>w' log. createStubProxy_call env options target prop args (w0, []) = (Inr v, (w', log))
            \<and> length (outcomesOf log) = k
            \<and> map snd (callsOf log) = replicate k (prop, args)
            \<and> length (acquiredOf log) = k - 1
            \<and> map fst (callsOf log) = target # acquiredOf log"
    unfolding createStubProxy_call_def
    by (rule exI[of _ w'], rule exI[of _ evs]) (use run len[unfolded k'] cls[unfolded k'] acq hs in blast)
next
  assume a: "1 \<le> k \<and> int k \<le> maxAttempts options2
      \<and> rejectsThenResolves (outcomeOfAttempt (nextAttempt2 env prop args) env prop args target w0)
          (shouldRetry2 options2) k v"
  then have scr: "rejectsThenResolves (outcomeOfAttempt (nextAttempt2 env prop args) env prop args target w0)
          (shouldRetry2 options2) k v"
    and bud: "int k \<le> maxAttempts options2" and k1: "1 \<le> k"
    by simp_all
  have st: "(nextAttempt2 env prop args ^^ (1 - 1)) (target, w0)
              = (fst (stubFor env target 1 (w0, [])), fst (snd (stubFor env target 1 (w0, []))))"
    by (simp add: stubFor_eq)
  from attemptLoop2_resolves_at[OF scr bud order_refl k1 refl st, of ThrownUndefined]
  obtain w' evs where
    run: "attemptLoop2 env options2 target prop args 1 ThrownUndefined (w0, []) = (Inr v, (w', evs))"
    and len: "length (outcomesOf evs) = k - 1 + 1"
    and cls: "map snd (callsOf evs) = replicate (k - 1 + 1) (prop, args)"
    and hs: "map fst (callsOf evs) = target # acquiredOf evs" by auto
  have k': "k - 1 + 1 = k" using k1 by simp
  have "length (map fst (callsOf evs)) = length (map snd (callsOf evs))" by simp
  then have acq: "length (acquiredOf evs) = k - 1" unfolding hs cls by simp
  show "\<exists>w' log. createStubProxy_call2 env options2 target prop args (w0, []) = (Inr v, (w', log))
            \<and> length (outcomesOf log) = k
            \<and> map snd (callsOf log) = replicate k (prop, args)
            \<and> length (acquiredOf log) = k - 1
            \<and> map fst (callsOf log) = target # acquiredOf log"
    unfolding createStubProxy_call2_def
    by (rule exI[of _ w'], rule exI[of _ evs]) (use run len[unfolded k'] cls[unfolded k'] acq hs in blast)
qed

theorem resolves_on_attempt_k_witness:
  "(1 \<le> (3::nat) \<and> int 3 \<le> maxAttempts (withRetry_opts fastRetry)
      \<and> rejectsThenResolves
            (outcomeOfAttempt (nextAttempt failsTwiceThenSucceeds ''testMethod'' [])
               failsTwiceThenSucceeds ''testMethod'' [] 1 (0, 1))
            (shouldRetry (withRetry_opts fastRetry)) 3 ''success'')
   \<and> (\<exists>w' log. createStubProxy_call failsTwiceThenSucceeds (withRetry_opts fastRetry) 1 ''testMethod'' [] ((0, 1), []) = (Inr ''success'', (w', log))
          \<and> length (outcomesOf log) = 3
          \<and> map snd (callsOf log) = replicate 3 (''testMethod'', [])
          \<and> length (acquiredOf log) = 3 - 1
          \<and> map fst (callsOf log) = 1 # acquiredOf log)
   \<and> (1 \<le> (3::nat) \<and> int 3 \<le> maxAttempts (withRetry_opts2 fastRetry)
      \<and> rejectsThenResolves
            (outcomeOfAttempt (nextAttempt2 failsTwiceThenSucceeds ''testMethod'' [])
               failsTwiceThenSucceeds ''testMethod'' [] 1 (0, 1))
            (shouldRetry2 (withRetry_opts2 fastRetry)) 3 ''success'')
   \<and> (\<exists>w' log. createStubProxy_call2 failsTwiceThenSucceeds (withRetry_opts2 fastRetry) 1 ''testMethod'' [] ((0, 1), []) = (Inr ''success'', (w', log))
          \<and> length (outcomesOf log) = 3
          \<and> map snd (callsOf log) = replicate 3 (''testMethod'', [])
          \<and> length (acquiredOf log) = 3 - 1
          \<and> map fst (callsOf log) = 1 # acquiredOf log)
   \<and> createStubProxy_call failsTwiceThenSucceeds (withRetry_opts fastRetry) 1 ''testMethod'' [] ((0, 1), [])
      = (Inr ''success'',
         ((3, 3), [Invoked 1 ''testMethod'' [] (Inl (createRetryableError ''transient-1'')), Acquired 2, Waited (Finite 1),
                   Invoked 2 ''testMethod'' [] (Inl (createRetryableError ''transient-2'')), Acquired 3, Waited (Finite 2),
                   Invoked 3 ''testMethod'' [] (Inr ''success'')]))
   \<and> createStubProxy_call2 failsTwiceThenSucceeds (withRetry_opts2 fastRetry) 1 ''testMethod'' [] ((0, 1), [])
      = (Inr ''success'',
         ((3, 3), [Invoked 1 ''testMethod'' [] (Inl (createRetryableError ''transient-1'')), Waited (Finite 1), Acquired 2,
                   Invoked 2 ''testMethod'' [] (Inl (createRetryableError ''transient-2'')), Waited (Finite 2), Acquired 3,
                   Invoked 3 ''testMethod'' [] (Inr ''success'')]))
   \<and> (1 \<le> (2::nat) \<and> int 2 \<le> maxAttempts (withRetry_opts fastRetry)
      \<and> rejectsThenResolves
            (outcomeOfAttempt (nextAttempt firstStubBroken ''testMethod'' [])
               firstStubBroken ''testMethod'' [] 1 1)
            (shouldRetry (withRetry_opts fastRetry)) 2 ''success'')
   \<and> (\<exists>w' log. createStubProxy_call firstStubBroken (withRetry_opts fastRetry) 1 ''testMethod'' [] (1, []) = (Inr ''success'', (w', log))
          \<and> length (outcomesOf log) = 2
          \<and> map snd (callsOf log) = replicate 2 (''testMethod'', [])
          \<and> length (acquiredOf log) = 2 - 1
          \<and> map fst (callsOf log) = 1 # acquiredOf log)
   \<and> (1 \<le> (2::nat) \<and> int 2 \<le> maxAttempts (withRetry_opts2 fastRetry)
      \<and> rejectsThenResolves
            (outcomeOfAttempt (nextAttempt2 firstStubBroken ''testMethod'' [])
               firstStubBroken ''testMethod'' [] 1 1)
            (shouldRetry2 (withRetry_opts2 fastRetry)) 2 ''success'')
   \<and> (\<exists>w' log. createStubProxy_call2 firstStubBroken (withRetry_opts2 fastRetry) 1 ''testMethod'' [] (1, []) = (Inr ''success'', (w', log))
          \<and> length (outcomesOf log) = 2
          \<and> map snd (callsOf log) = replicate 2 (''testMethod'', [])
          \<and> length (acquiredOf log) = 2 - 1
          \<and> map fst (callsOf log) = 1 # acquiredOf log)
   \<and> createStubProxy_call firstStubBroken (withRetry_opts fastRetry) 1 ''testMethod'' [] (1, [])
      = (Inr ''success'',
         (2, [Invoked 1 ''testMethod'' [] (Inl (createRetryableError ''broken'')), Acquired 2, Waited (Finite 1),
              Invoked 2 ''testMethod'' [] (Inr ''success'')]))
   \<and> createStubProxy_call2 firstStubBroken (withRetry_opts2 fastRetry) 1 ''testMethod'' [] (1, [])
      = (Inr ''success'',
         (2, [Invoked 1 ''testMethod'' [] (Inl (createRetryableError ''broken'')), Waited (Finite 1), Acquired 2,
              Invoked 2 ''testMethod'' [] (Inr ''success'')]))"
proof -
  have re: "isErrorRetryable (createRetryableError ''transient-1'')"
    "isErrorRetryable (createRetryableError ''transient-2'')"
    "isErrorRetryable (createRetryableError ''broken'')"
    by (simp_all add: isErrorRetryable_def createRetryableError_def)
  have iv: "{1..<3::nat} = {1, 2}" "{1..<2::nat} = {1}" by auto
  have o1: "outcomeOfAttempt (nextAttempt failsTwiceThenSucceeds ''testMethod'' [])
               failsTwiceThenSucceeds ''testMethod'' [] 1 (0::nat, 1::nat) 1
              = Inl (createRetryableError ''transient-1'')"
    "outcomeOfAttempt (nextAttempt failsTwiceThenSucceeds ''testMethod'' [])
               failsTwiceThenSucceeds ''testMethod'' [] 1 (0::nat, 1::nat) 2
              = Inl (createRetryableError ''transient-2'')"
    "outcomeOfAttempt (nextAttempt failsTwiceThenSucceeds ''testMethod'' [])
               failsTwiceThenSucceeds ''testMethod'' [] 1 (0::nat, 1::nat) 3
              = Inr ''success''"
    by (simp_all add: outcomeOfAttempt_def nextAttempt_def createMockNamespace_def
          numeral_2_eq_2 numeral_3_eq_3)
  have o2: "outcomeOfAttempt (nextAttempt2 failsTwiceThenSucceeds ''testMethod'' [])
               failsTwiceThenSucceeds ''testMethod'' [] 1 (0::nat, 1::nat) 1
              = Inl (createRetryableError ''transient-1'')"
    "outcomeOfAttempt (nextAttempt2 failsTwiceThenSucceeds ''testMethod'' [])
               failsTwiceThenSucceeds ''testMethod'' [] 1 (0::nat, 1::nat) 2
              = Inl (createRetryableError ''transient-2'')"
    "outcomeOfAttempt (nextAttempt2 failsTwiceThenSucceeds ''testMethod'' [])
               failsTwiceThenSucceeds ''testMethod'' [] 1 (0::nat, 1::nat) 3
              = Inr ''success''"
    by (simp_all add: outcomeOfAttempt_def nextAttempt2_def createMockNamespace_def
          numeral_2_eq_2 numeral_3_eq_3)
  have o3: "outcomeOfAttempt (nextAttempt firstStubBroken ''testMethod'' [])
               firstStubBroken ''testMethod'' [] 1 1 1
              = Inl (createRetryableError ''broken'')"
    "outcomeOfAttempt (nextAttempt firstStubBroken ''testMethod'' [])
               firstStubBroken ''testMethod'' [] 1 1 2
              = Inr ''success''"
    by (simp_all add: outcomeOfAttempt_def nextAttempt_def firstStubBroken_def numeral_2_eq_2)
  have o4: "outcomeOfAttempt (nextAttempt2 firstStubBroken ''testMethod'' [])
               firstStubBroken ''testMethod'' [] 1 1 1
              = Inl (createRetryableError ''broken'')"
    "outcomeOfAttempt (nextAttempt2 firstStubBroken ''testMethod'' [])
               firstStubBroken ''testMethod'' [] 1 1 2
              = Inr ''success''"
    by (simp_all add: outcomeOfAttempt_def nextAttempt2_def firstStubBroken_def numeral_2_eq_2)
  have r1: "rejectsThenResolves
            (outcomeOfAttempt (nextAttempt failsTwiceThenSucceeds ''testMethod'' [])
               failsTwiceThenSucceeds ''testMethod'' [] 1 (0::nat, 1::nat))
            (shouldRetry (withRetry_opts fastRetry)) 3 ''success''"
    unfolding rejectsThenResolves_def iv using o1 re by (simp add: shouldRetry_def withRetry_opts_def FAST_RETRY_def)
  have h1: "1 \<le> (3::nat) \<and> int 3 \<le> maxAttempts (withRetry_opts fastRetry)
      \<and> rejectsThenResolves
            (outcomeOfAttempt (nextAttempt failsTwiceThenSucceeds ''testMethod'' [])
               failsTwiceThenSucceeds ''testMethod'' [] 1 (0::nat, 1::nat))
            (shouldRetry (withRetry_opts fastRetry)) 3 ''success''"
    using r1 by (simp add: withRetry_opts_def FAST_RETRY_def DEFAULT_OPTIONS_def)
  have r2: "rejectsThenResolves
            (outcomeOfAttempt (nextAttempt2 failsTwiceThenSucceeds ''testMethod'' [])
               failsTwiceThenSucceeds ''testMethod'' [] 1 (0::nat, 1::nat))
            (shouldRetry2 (withRetry_opts2 fastRetry)) 3 ''success''"
    unfolding rejectsThenResolves_def iv using o2 re by (simp add: shouldRetry2_def withRetry_opts2_def FAST_RETRY_def)
  have h2: "1 \<le> (3::nat) \<and> int 3 \<le> maxAttempts (withRetry_opts2 fastRetry)
      \<and> rejectsThenResolves
            (outcomeOfAttempt (nextAttempt2 failsTwiceThenSucceeds ''testMethod'' [])
               failsTwiceThenSucceeds ''testMethod'' [] 1 (0::nat, 1::nat))
            (shouldRetry2 (withRetry_opts2 fastRetry)) 3 ''success''"
    using r2 by (simp add: withRetry_opts2_def FAST_RETRY_def DEFAULT_OPTIONS_def)
  have r3: "rejectsThenResolves
            (outcomeOfAttempt (nextAttempt firstStubBroken ''testMethod'' [])
               firstStubBroken ''testMethod'' [] 1 1)
            (shouldRetry (withRetry_opts fastRetry)) 2 ''success''"
    unfolding rejectsThenResolves_def iv using o3 re by (simp add: shouldRetry_def withRetry_opts_def FAST_RETRY_def)
  have h3: "1 \<le> (2::nat) \<and> int 2 \<le> maxAttempts (withRetry_opts fastRetry)
      \<and> rejectsThenResolves
            (outcomeOfAttempt (nextAttempt firstStubBroken ''testMethod'' [])
               firstStubBroken ''testMethod'' [] 1 1)
            (shouldRetry (withRetry_opts fastRetry)) 2 ''success''"
    using r3 by (simp add: withRetry_opts_def FAST_RETRY_def DEFAULT_OPTIONS_def)
  have r4: "rejectsThenResolves
            (outcomeOfAttempt (nextAttempt2 firstStubBroken ''testMethod'' [])
               firstStubBroken ''testMethod'' [] 1 1)
            (shouldRetry2 (withRetry_opts2 fastRetry)) 2 ''success''"
    unfolding rejectsThenResolves_def iv using o4 re by (simp add: shouldRetry2_def withRetry_opts2_def FAST_RETRY_def)
  have h4: "1 \<le> (2::nat) \<and> int 2 \<le> maxAttempts (withRetry_opts2 fastRetry)
      \<and> rejectsThenResolves
            (outcomeOfAttempt (nextAttempt2 firstStubBroken ''testMethod'' [])
               firstStubBroken ''testMethod'' [] 1 1)
            (shouldRetry2 (withRetry_opts2 fastRetry)) 2 ''success''"
    using r4 by (simp add: withRetry_opts2_def FAST_RETRY_def DEFAULT_OPTIONS_def)
  note t = resolves_on_attempt_k
  have c1: "\<exists>w' log. createStubProxy_call failsTwiceThenSucceeds (withRetry_opts fastRetry) 1 ''testMethod'' [] ((0, 1), []) = (Inr ''success'', (w', log))
          \<and> length (outcomesOf log) = 3
          \<and> map snd (callsOf log) = replicate 3 (''testMethod'', [])
          \<and> length (acquiredOf log) = 3 - 1
          \<and> map fst (callsOf log) = 1 # acquiredOf log"
    by (rule conjunct1[OF t, rule_format, OF h1])
  have c2: "\<exists>w' log. createStubProxy_call2 failsTwiceThenSucceeds (withRetry_opts2 fastRetry) 1 ''testMethod'' [] ((0, 1), []) = (Inr ''success'', (w', log))
          \<and> length (outcomesOf log) = 3
          \<and> map snd (callsOf log) = replicate 3 (''testMethod'', [])
          \<and> length (acquiredOf log) = 3 - 1
          \<and> map fst (callsOf log) = 1 # acquiredOf log"
    by (rule conjunct2[OF t, rule_format, OF h2])
  have c3: "\<exists>w' log. createStubProxy_call firstStubBroken (withRetry_opts fastRetry) 1 ''testMethod'' [] (1, []) = (Inr ''success'', (w', log))
          \<and> length (outcomesOf log) = 2
          \<and> map snd (callsOf log) = replicate 2 (''testMethod'', [])
          \<and> length (acquiredOf log) = 2 - 1
          \<and> map fst (callsOf log) = 1 # acquiredOf log"
    by (rule conjunct1[OF t, rule_format, OF h3])
  have c4: "\<exists>w' log. createStubProxy_call2 firstStubBroken (withRetry_opts2 fastRetry) 1 ''testMethod'' [] (1, []) = (Inr ''success'', (w', log))
          \<and> length (outcomesOf log) = 2
          \<and> map snd (callsOf log) = replicate 2 (''testMethod'', [])
          \<and> length (acquiredOf log) = 2 - 1
          \<and> map fst (callsOf log) = 1 # acquiredOf log"
    by (rule conjunct2[OF t, rule_format, OF h4])
  have e1: "createStubProxy_call failsTwiceThenSucceeds (withRetry_opts fastRetry) 1 ''testMethod'' [] ((0, 1), [])
      = (Inr ''success'',
         ((3, 3), [Invoked 1 ''testMethod'' [] (Inl (createRetryableError ''transient-1'')), Acquired 2, Waited (Finite 1),
                   Invoked 2 ''testMethod'' [] (Inl (createRetryableError ''transient-2'')), Acquired 3, Waited (Finite 2),
                   Invoked 3 ''testMethod'' [] (Inr ''success'')]))"
    using re by (simp add: createStubProxy_call_def attemptLoop.simps invoke_def acquire_def draw_def
        scheduler_wait_def jitterBackoff_oneHalf createMockNamespace_def withRetry_opts_def
        FAST_RETRY_def DEFAULT_OPTIONS_def)
  have e2: "createStubProxy_call2 failsTwiceThenSucceeds (withRetry_opts2 fastRetry) 1 ''testMethod'' [] ((0, 1), [])
      = (Inr ''success'',
         ((3, 3), [Invoked 1 ''testMethod'' [] (Inl (createRetryableError ''transient-1'')), Waited (Finite 1), Acquired 2,
                   Invoked 2 ''testMethod'' [] (Inl (createRetryableError ''transient-2'')), Waited (Finite 2), Acquired 3,
                   Invoked 3 ''testMethod'' [] (Inr ''success'')]))"
    using re by (simp add: createStubProxy_call2_def attemptLoop2.simps invoke_def acquire_def draw_def
        scheduler_wait_def jitterBackoff_oneHalf createMockNamespace_def withRetry_opts2_def
        FAST_RETRY_def DEFAULT_OPTIONS_def)
  have e3: "createStubProxy_call firstStubBroken (withRetry_opts fastRetry) 1 ''testMethod'' [] (1, [])
      = (Inr ''success'',
         (2, [Invoked 1 ''testMethod'' [] (Inl (createRetryableError ''broken'')), Acquired 2, Waited (Finite 1),
              Invoked 2 ''testMethod'' [] (Inr ''success'')]))"
    using re by (simp add: createStubProxy_call_def attemptLoop.simps invoke_def acquire_def draw_def
        scheduler_wait_def jitterBackoff_oneHalf firstStubBroken_def withRetry_opts_def
        FAST_RETRY_def DEFAULT_OPTIONS_def)
  have e4: "createStubProxy_call2 firstStubBroken (withRetry_opts2 fastRetry) 1 ''testMethod'' [] (1, [])
      = (Inr ''success'',
         (2, [Invoked 1 ''testMethod'' [] (Inl (createRetryableError ''broken'')), Waited (Finite 1), Acquired 2,
              Invoked 2 ''testMethod'' [] (Inr ''success'')]))"
    using re by (simp add: createStubProxy_call2_def attemptLoop2.simps invoke_def acquire_def draw_def
        scheduler_wait_def jitterBackoff_oneHalf firstStubBroken_def withRetry_opts2_def
        FAST_RETRY_def DEFAULT_OPTIONS_def)
  show ?thesis
    by (rule conjI[OF h1 conjI[OF c1 conjI[OF h2 conjI[OF c2 conjI[OF e1 conjI[OF e2
          conjI[OF h3 conjI[OF c3 conjI[OF h4 conjI[OF c4 conjI[OF e3 e4]]]]]]]]]]])
qed

lemma attemptLoop_handles:
  "n = nat (maxAttempts options + 1 - int a) \<Longrightarrow>
     \<exists>r w' evs. attemptLoop env options prop args a lastError h s = (r, (w', snd s @ evs))
        \<and> (int a \<le> maxAttempts options \<longrightarrow>
              handleChain h (withoutWaits evs) \<and> map fst (callsOf evs) = h # acquiredOf evs)
        \<and> (handsOutFresh held env \<longrightarrow>
              distinct (acquiredOf evs) \<and> set (acquiredOf evs) \<inter> held (fst s) = {})"
proof (induction n arbitrary: a lastError h s)
  case 0
  then have gt: "\<not> int a \<le> maxAttempts options" by simp
  then have "attemptLoop env options prop args a lastError h s = (Inl lastError, (fst s, snd s @ []))"
    by (simp add: attemptLoop_exhausted)
  then show ?case
    by (intro exI[of _ "Inl lastError"] exI[of _ "fst s"] exI[of _ "[]"]) (simp add: gt)
next
  case (Suc n)
  then have le: "int a \<le> maxAttempts options" by simp
  obtain out w1 where r: "rpc env h prop args (fst s) = (out, w1)" by (metis surj_pair)
  have single: "\<exists>r w' evs. attemptLoop env options prop args a lastError h s = (r, (w', snd s @ evs))
        \<and> (int a \<le> maxAttempts options \<longrightarrow>
              handleChain h (withoutWaits evs) \<and> map fst (callsOf evs) = h # acquiredOf evs)
        \<and> (handsOutFresh held env \<longrightarrow>
              distinct (acquiredOf evs) \<and> set (acquiredOf evs) \<inter> held (fst s) = {})"
    if "attemptLoop env options prop args a lastError h s
          = (out, (w1, snd s @ [Invoked h prop args out]))"
    by (intro exI[of _ out] exI[of _ w1] exI[of _ "[Invoked h prop args out]"]) (simp add: that)
  show ?case
  proof (cases out)
    case (Inr v)
    with attemptLoop_resolves[OF le r[unfolded Inr]] single show ?thesis by simp
  next
    case (Inl e)
    note r' = r[unfolded Inl]
    show ?thesis
    proof (cases "shouldRetry options e")
      case False
      with attemptLoop_throws[OF le r'] single Inl show ?thesis by simp
    next
      case sr: True
      show ?thesis
      proof (cases "int a = maxAttempts options")
        case True
        with attemptLoop_budget_spent[OF True r'] single Inl show ?thesis by simp
      next
        case False
        with le have lt: "int a < maxAttempts options" by simp
        let ?s1 = "(w1, snd s @ [Invoked h prop args (Inl e)])"
        let ?h' = "fst (getStub env w1)"
        let ?w2 = "snd (random env (snd (getStub env w1)))"
        obtain d where af: "afterFailure env options a ?s1
                              = (?h', (?w2, snd ?s1 @ [Acquired ?h', Waited d]))"
          by (simp add: afterFailure_eq)
        let ?s' = "(?w2, snd ?s1 @ [Acquired ?h', Waited d])"
        have step: "attemptLoop env options prop args a lastError h s
                      = attemptLoop env options prop args (a + 1) e ?h' ?s'"
          using attemptLoop_retries[OF lt r' sr] af by simp
        have le': "int (a + 1) \<le> maxAttempts options" using lt by simp
        have "n = nat (maxAttempts options + 1 - int (a + 1))" using Suc.prems by simp
        from Suc.IH[OF this, of e ?h' ?s'] le' obtain r2 w' evs where
          run: "attemptLoop env options prop args (a + 1) e ?h' ?s' = (r2, (w', snd ?s' @ evs))"
          and ch: "handleChain ?h' (withoutWaits evs)"
          and hs: "map fst (callsOf evs) = ?h' # acquiredOf evs"
          and fr: "handsOutFresh held env \<longrightarrow>
                     distinct (acquiredOf evs) \<and> set (acquiredOf evs) \<inter> held (fst ?s') = {}"
          by auto
        let ?evs = "[Invoked h prop args (Inl e), Acquired ?h', Waited d] @ evs"
        have run': "attemptLoop env options prop args a lastError h s = (r2, (w', snd s @ ?evs))"
          using step run by simp
        have ch': "handleChain h (withoutWaits ?evs)" using ch by simp
        have hs': "map fst (callsOf ?evs) = h # acquiredOf ?evs" using hs by simp
        have fr': "distinct (acquiredOf ?evs) \<and> set (acquiredOf ?evs) \<inter> held (fst s) = {}"
          if f: "handsOutFresh held env"
        proof -
          from f r' have m1: "held (fst s) \<subseteq> held w1"
            unfolding handsOutFresh_def by (metis snd_conv)
          from f have notin: "?h' \<notin> held w1"
            and m2: "insert ?h' (held w1) \<subseteq> held (snd (getStub env w1))"
            unfolding handsOutFresh_def by blast+
          from f have m3: "held (snd (getStub env w1)) \<subseteq> held ?w2"
            unfolding handsOutFresh_def by blast
          from fr f have d: "distinct (acquiredOf evs)"
            and dj: "set (acquiredOf evs) \<inter> held ?w2 = {}" by simp_all
          from m2 m3 have "?h' \<in> held ?w2" by blast
          with dj have "?h' \<notin> set (acquiredOf evs)" by blast
          moreover from m1 m2 m3 dj have "set (acquiredOf evs) \<inter> held (fst s) = {}" by blast
          moreover from notin m1 have "?h' \<notin> held (fst s)" by blast
          ultimately show ?thesis using d by simp
        qed
        show ?thesis
          by (intro exI[of _ r2] exI[of _ w'] exI[of _ ?evs]) (use run' ch' hs' fr' in blast)
      qed
    qed
  qed
qed


lemma stubFor_cases:
  assumes "stubFor env target a s = (h, s0)"
  obtains (first) "a = 1" "h = target" "s0 = s"
        | (later) "a \<noteq> 1" "h = fst (getStub env (fst s))"
                  "s0 = (snd (getStub env (fst s)), snd s @ [Acquired h])"
  using assms by (auto simp: stubFor_eq split: if_splits)

lemma attemptLoop2_handles:
  fixes env :: "('w, 'h, 'a, 'v) env"
  shows "1 \<le> a \<Longrightarrow> n = nat (maxAttempts options + 1 - int a) \<Longrightarrow>
     \<exists>r w' evs. attemptLoop2 env options target prop args a lastError s = (r, (w', snd s @ evs))
        \<and> (int a \<le> maxAttempts options \<longrightarrow>
              (if a = 1 then handleChain target (withoutWaits evs)
               else (\<exists>g rest. withoutWaits evs = Acquired g # rest \<and> handleChain g rest))
              \<and> map fst (callsOf evs) = (if a = 1 then [target] else []) @ acquiredOf evs)
        \<and> (handsOutFresh held env \<longrightarrow>
              distinct (acquiredOf evs) \<and> set (acquiredOf evs) \<inter> held (fst s) = {})"
proof (induction n arbitrary: a lastError s)
  case 0
  then have gt: "\<not> int a \<le> maxAttempts options" by simp
  then have "attemptLoop2 env options target prop args a lastError s
               = (Inl lastError, (fst s, snd s @ []))"
    by (simp add: attemptLoop2_exhausted)
  then show ?case
    by (intro exI[of _ "Inl lastError"] exI[of _ "fst s"] exI[of _ "[]"]) (simp add: gt)
next
  case (Suc n)
  then have le: "int a \<le> maxAttempts options" by simp
  obtain h s0 where sf: "stubFor env target a s = (h, s0)" by (metis surj_pair)
  define pre :: "('h, 'a, 'v) event list" where "pre = (if a = 1 then [] else [Acquired h])"
  have s0: "snd s0 = snd s @ pre" and ha: "a = 1 \<longrightarrow> h = target"
    using sf by (cases rule: stubFor_cases; simp add: pre_def)+
  have fresh0: "held (fst s) \<subseteq> held (fst s0) \<and> (a \<noteq> 1 \<longrightarrow> h \<notin> held (fst s) \<and> h \<in> held (fst s0))"
    if f: "handsOutFresh held env"
    using sf
  proof (cases rule: stubFor_cases)
    case first
    then show ?thesis by simp
  next
    case later
    from f have "fst (getStub env (fst s)) \<notin> held (fst s)"
      "insert (fst (getStub env (fst s))) (held (fst s)) \<subseteq> held (snd (getStub env (fst s)))"
      unfolding handsOutFresh_def by blast+
    with later show ?thesis by auto
  qed
  obtain out w1 where r: "rpc env h prop args (fst s0) = (out, w1)" by (metis surj_pair)
  have single: ?case
    if run: "attemptLoop2 env options target prop args a lastError s
          = (out, (w1, snd s0 @ [Invoked h prop args out]))"
  proof -
    let ?evs = "pre @ [Invoked h prop args out]"
    have run': "attemptLoop2 env options target prop args a lastError s = (out, (w1, snd s @ ?evs))"
      using run by (simp add: s0)
    have ch: "if a = 1 then handleChain target (withoutWaits ?evs)
              else (\<exists>g rest. withoutWaits ?evs = Acquired g # rest \<and> handleChain g rest)"
      using ha by (simp add: pre_def)
    have hs: "map fst (callsOf ?evs) = (if a = 1 then [target] else []) @ acquiredOf ?evs"
      using ha by (simp add: pre_def)
    have fr: "distinct (acquiredOf ?evs) \<and> set (acquiredOf ?evs) \<inter> held (fst s) = {}"
      if f: "handsOutFresh held env"
      using fresh0[OF f] by (simp add: pre_def)
    show ?thesis
      by (intro exI[of _ out] exI[of _ w1] exI[of _ ?evs]) (use run' ch hs fr in blast)
  qed
  show ?case
  proof (cases out)
    case (Inr v)
    with attemptLoop2_resolves[OF le sf r[unfolded Inr]] single show ?thesis by simp
  next
    case (Inl e)
    note r' = r[unfolded Inl]
    show ?thesis
    proof (cases "shouldRetry2 options e")
      case False
      with attemptLoop2_throws[OF le sf r'] single Inl show ?thesis by simp
    next
      case sr: True
      show ?thesis
      proof (cases "int a = maxAttempts options")
        case True
        with attemptLoop2_budget_spent[OF True sf r'] single Inl show ?thesis by simp
      next
        case False
        with le have lt: "int a < maxAttempts options" by simp
        let ?s1 = "(w1, snd s0 @ [Invoked h prop args (Inl e)])"
        let ?w2 = "snd (random env w1)"
        obtain d where af: "afterFailure2 env options a ?s1 = (?w2, snd ?s1 @ [Waited d])"
          by (simp add: afterFailure2_eq)
        let ?s' = "(?w2, snd ?s1 @ [Waited d])"
        have step: "attemptLoop2 env options target prop args a lastError s
                      = attemptLoop2 env options target prop args (a + 1) e ?s'"
          using attemptLoop2_retries[OF lt sf r' sr] af by simp
        have le': "int (a + 1) \<le> maxAttempts options" using lt by simp
        have nn: "n = nat (maxAttempts options + 1 - int (a + 1))" using Suc.prems by simp
        have a1: "a + 1 \<noteq> 1" "1 \<le> a + 1" using Suc.prems(1) by simp_all
        from Suc.IH[OF a1(2) nn, of e ?s'] le' a1(1) obtain r2 w' evs g rest where
          run: "attemptLoop2 env options target prop args (a + 1) e ?s' = (r2, (w', snd ?s' @ evs))"
          and ww: "withoutWaits evs = Acquired g # rest" and ch0: "handleChain g rest"
          and hs0: "map fst (callsOf evs) = acquiredOf evs"
          and fr: "handsOutFresh held env \<longrightarrow>
                     distinct (acquiredOf evs) \<and> set (acquiredOf evs) \<inter> held (fst ?s') = {}"
          by auto
        let ?evs = "pre @ [Invoked h prop args (Inl e), Waited d] @ evs"
        have run': "attemptLoop2 env options target prop args a lastError s = (r2, (w', snd s @ ?evs))"
          using step run by (simp add: s0)
        have ch: "if a = 1 then handleChain target (withoutWaits ?evs)
                  else (\<exists>g rest. withoutWaits ?evs = Acquired g # rest \<and> handleChain g rest)"
          using ha ww ch0 by (simp add: pre_def)
        have hs: "map fst (callsOf ?evs) = (if a = 1 then [target] else []) @ acquiredOf ?evs"
          using ha hs0 by (simp add: pre_def)
        have fr': "distinct (acquiredOf ?evs) \<and> set (acquiredOf ?evs) \<inter> held (fst s) = {}"
          if f: "handsOutFresh held env"
        proof -
          note f0 = fresh0[OF f]
          from f r' have m1: "held (fst s0) \<subseteq> held w1"
            unfolding handsOutFresh_def by (metis snd_conv)
          from f have m2: "held w1 \<subseteq> held ?w2"
            unfolding handsOutFresh_def by blast
          from fr f have d: "distinct (acquiredOf evs)"
            and dj: "set (acquiredOf evs) \<inter> held ?w2 = {}" by simp_all
          from f0 m1 m2 dj have dj': "set (acquiredOf evs) \<inter> held (fst s) = {}" by blast
          show ?thesis
          proof (cases "a = 1")
            case True
            then show ?thesis using d dj' by (simp add: pre_def)
          next
            case False
            with f0 have "h \<notin> held (fst s)" "h \<in> held (fst s0)" by simp_all
            with m1 m2 dj have "h \<notin> set (acquiredOf evs)" by blast
            then show ?thesis using False d dj' \<open>h \<notin> held (fst s)\<close> by (simp add: pre_def)
          qed
        qed
        show ?thesis
          by (intro exI[of _ r2] exI[of _ w'] exI[of _ ?evs]) (use run' ch hs fr' in blast)
      qed
    qed
  qed
qed


text \<open>
  Claim C7, as stated, promises that the handle of attempt \<open>k\<close> is never the handle of
  attempt \<open>k - 1\<close>. The engine takes whatever the getter returns (line 108, line 268) and
  compares nothing: with a namespace whose \<^verbatim>\<open>get\<close> returns the one handle it holds,
  the second attempt runs on the handle of the first.
\<close>

theorem same_handle_from_caching_getter:
  "createStubProxy_call cachingFailsOnce (withRetry_opts fastRetry) 1 ''testMethod'' [] ((0, 1), [])
     = (Inr ''success'',
        ((2, 1), [Invoked 1 ''testMethod'' [] (Inl (createRetryableError ''transient-1'')), Acquired 1, Waited (Finite 1),
                  Invoked 1 ''testMethod'' [] (Inr ''success'')]))
   \<and> map fst (callsOf [Invoked (1::nat) ''testMethod'' ([]::string list) (Inl (createRetryableError ''transient-1'')), Acquired 1, Waited (Finite 1),
                         Invoked 1 ''testMethod'' [] (Inr ''success'')]) = [1, 1]"
  by (simp add: createStubProxy_call_def attemptLoop.simps invoke_def acquire_def draw_def
        scheduler_wait_def jitterBackoff_oneHalf createCachingNamespace_def createMockNamespace_def
        withRetry_opts_def FAST_RETRY_def DEFAULT_OPTIONS_def isErrorRetryable_def
        createRetryableError_def)

text \<open>
  Claim C7, amended. In every call that makes an attempt, the record without its waits is
  a chain: the first invocation is on the handle already held; every later invocation is
  on the handle that the getter returned directly after the previous invocation failed,
  one request per retry, whatever the classification that let the error be retried. Where
  the getter never returns a handle that exists already (\<open>held w\<close> are the handles that
  exist in world \<open>w\<close>, the held one among them), the handles of all attempts are pairwise
  different, so the handle of attempt \<open>k\<close> is not the handle of attempt \<open>k - 1\<close>.
  Both renditions of the module behave so.
\<close>

theorem retry_runs_on_requested_handle:
  "(1 \<le> maxAttempts options \<longrightarrow>
      (\<exists>r w' log. createStubProxy_call env options target prop args (w0, []) = (r, (w', log))
          \<and> handleChain target (withoutWaits log)
          \<and> (handsOutFresh held env \<and> target \<in> held w0 \<longrightarrow> distinct (map fst (callsOf log)))))
   \<and> (1 \<le> maxAttempts options2 \<longrightarrow>
      (\<exists>r w' log. createStubProxy_call2 env options2 target prop args (w0, []) = (r, (w', log))
          \<and> handleChain target (withoutWaits log)
          \<and> (handsOutFresh held env \<and> target \<in> held w0 \<longrightarrow> distinct (map fst (callsOf log)))))"
proof (intro conjI impI)
  assume "1 \<le> maxAttempts options"
  then have le: "int 1 \<le> maxAttempts options" by simp
  from attemptLoop_handles[OF refl, of env options "prop" args 1 ThrownUndefined target "(w0, [])" held] le
  obtain r w' evs where
    run: "attemptLoop env options prop args 1 ThrownUndefined target (w0, []) = (r, (w', evs))"
    and ch: "handleChain target (withoutWaits evs)"
    and hs: "map fst (callsOf evs) = target # acquiredOf evs"
    and fr: "handsOutFresh held env \<longrightarrow> distinct (acquiredOf evs) \<and> set (acquiredOf evs) \<inter> held w0 = {}"
    by auto
  have "distinct (map fst (callsOf evs))" if "handsOutFresh held env \<and> target \<in> held w0"
    using that fr unfolding hs by auto
  then show "\<exists>r w' log. createStubProxy_call env options target prop args (w0, []) = (r, (w', log))
          \<and> handleChain target (withoutWaits log)
          \<and> (handsOutFresh held env \<and> target \<in> held w0 \<longrightarrow> distinct (map fst (callsOf log)))"
    unfolding createStubProxy_call_def
    by (intro exI[of _ r] exI[of _ w'] exI[of _ evs]) (use run ch in blast)
next
  assume "1 \<le> maxAttempts options2"
  then have le: "int 1 \<le> maxAttempts options2" by simp
  have one: "(1::nat) \<le> 1" by simp
  from attemptLoop2_handles[OF one refl, of env options2 target "prop" args ThrownUndefined "(w0, [])" held] le
  obtain r w' evs where
    run: "attemptLoop2 env options2 target prop args 1 ThrownUndefined (w0, []) = (r, (w', evs))"
    and ch: "handleChain target (withoutWaits evs)"
    and hs: "map fst (callsOf evs) = target # acquiredOf evs"
    and fr: "handsOutFresh held env \<longrightarrow> distinct (acquiredOf evs) \<and> set (acquiredOf evs) \<inter> held w0 = {}"
    by auto
  have "distinct (map fst (callsOf evs))" if "handsOutFresh held env \<and> target \<in> held w0"
    using that fr unfolding hs by auto
  then show "\<exists>r w' log. createStubProxy_call2 env options2 target prop args (w0, []) = (r, (w', log))
          \<and> handleChain target (withoutWaits log)
          \<and> (handsOutFresh held env \<and> target \<in> held w0 \<longrightarrow> distinct (map fst (callsOf log)))"
    unfolding createStubProxy_call2_def
    by (intro exI[of _ r] exI[of _ w'] exI[of _ evs]) (use run ch in blast)
qed

theorem retry_runs_on_requested_handle_witness:
  "1 \<le> maxAttempts (withRetry_opts fastRetry)
   \<and> (\<exists>r w' log. createStubProxy_call failsTwiceThenSucceeds (withRetry_opts fastRetry) 1 ''testMethod'' [] ((0, 1), []) = (r, (w', log))
          \<and> handleChain 1 (withoutWaits log)
          \<and> (handsOutFresh createdSoFar failsTwiceThenSucceeds \<and> 1 \<in> createdSoFar (0, 1)
                \<longrightarrow> distinct (map fst (callsOf log))))
   \<and> 1 \<le> maxAttempts (withRetry_opts2 fastRetry)
   \<and> (\<exists>r w' log. createStubProxy_call2 failsTwiceThenSucceeds (withRetry_opts2 fastRetry) 1 ''testMethod'' [] ((0, 1), []) = (r, (w', log))
          \<and> handleChain 1 (withoutWaits log)
          \<and> (handsOutFresh createdSoFar failsTwiceThenSucceeds \<and> 1 \<in> createdSoFar (0, 1)
                \<longrightarrow> distinct (map fst (callsOf log))))
   \<and> (handsOutFresh createdSoFar failsTwiceThenSucceeds \<and> 1 \<in> createdSoFar (0, 1))
   \<and> createStubProxy_call failsTwiceThenSucceeds (withRetry_opts fastRetry) 1 ''testMethod'' [] ((0, 1), [])
      = (Inr ''success'',
         ((3, 3), [Invoked 1 ''testMethod'' [] (Inl (createRetryableError ''transient-1'')), Acquired 2, Waited (Finite 1),
                   Invoked 2 ''testMethod'' [] (Inl (createRetryableError ''transient-2'')), Acquired 3, Waited (Finite 2),
                   Invoked 3 ''testMethod'' [] (Inr ''success'')]))"
proof -
  have h1: "1 \<le> maxAttempts (withRetry_opts fastRetry)"
    by (simp add: withRetry_opts_def FAST_RETRY_def DEFAULT_OPTIONS_def)
  have h2: "1 \<le> maxAttempts (withRetry_opts2 fastRetry)"
    by (simp add: withRetry_opts2_def FAST_RETRY_def DEFAULT_OPTIONS_def)
  note t = retry_runs_on_requested_handle
  have c1: "\<exists>r w' log. createStubProxy_call failsTwiceThenSucceeds (withRetry_opts fastRetry) 1 ''testMethod'' [] ((0, 1), []) = (r, (w', log))
          \<and> handleChain 1 (withoutWaits log)
          \<and> (handsOutFresh createdSoFar failsTwiceThenSucceeds \<and> 1 \<in> createdSoFar (0, 1)
                \<longrightarrow> distinct (map fst (callsOf log)))"
    by (rule conjunct1[OF t, rule_format, OF h1])
  have c2: "\<exists>r w' log. createStubProxy_call2 failsTwiceThenSucceeds (withRetry_opts2 fastRetry) 1 ''testMethod'' [] ((0, 1), []) = (r, (w', log))
          \<and> handleChain 1 (withoutWaits log)
          \<and> (handsOutFresh createdSoFar failsTwiceThenSucceeds \<and> 1 \<in> createdSoFar (0, 1)
                \<longrightarrow> distinct (map fst (callsOf log)))"
    by (rule conjunct2[OF t, rule_format, OF h2])
  have f: "handsOutFresh createdSoFar failsTwiceThenSucceeds \<and> 1 \<in> createdSoFar (0, 1)"
    by (auto simp add: handsOutFresh_def createdSoFar_def createMockNamespace_def)
  have e1: "createStubProxy_call failsTwiceThenSucceeds (withRetry_opts fastRetry) 1 ''testMethod'' [] ((0, 1), [])
      = (Inr ''success'',
         ((3, 3), [Invoked 1 ''testMethod'' [] (Inl (createRetryableError ''transient-1'')), Acquired 2, Waited (Finite 1),
                   Invoked 2 ''testMethod'' [] (Inl (createRetryableError ''transient-2'')), Acquired 3, Waited (Finite 2),
                   Invoked 3 ''testMethod'' [] (Inr ''success'')]))"
    by (simp add: createStubProxy_call_def attemptLoop.simps invoke_def acquire_def draw_def
        scheduler_wait_def jitterBackoff_oneHalf createMockNamespace_def withRetry_opts_def
        FAST_RETRY_def DEFAULT_OPTIONS_def isErrorRetryable_def createRetryableError_def)
  show ?thesis
    by (rule conjI[OF h1 conjI[OF c1 conjI[OF h2 conjI[OF c2 conjI[OF f e1]]]]])
qed

text \<open>
  The three wrapping functions pass on their parameters only: called with one argument,
  the wrapper of \<^verbatim>\<open>getByName\<close> calls the underlying function with two, the second
  \<^verbatim>\<open>undefined\<close>; called with two, the wrapper of \<^verbatim>\<open>get\<close> calls it with the first
  alone.
\<close>

lemma wrappers_pass_their_parameters:
  "withRetry_invoke mockNsOp mockNamespace (Named ''getByName'') [Some ''test''] (0, [])
     = (StubProxy ''test'' (Named ''getByName'') [Some ''test'', None],
        (1, [NsCalled (Named ''getByName'') [Some ''test'', None] ''test'']))"
  "withRetry_invoke mockNsOp mockNamespace (Named ''get'') [Some ''id'', Some ''extra''] (0, [])
     = (StubProxy ''id'' (Named ''get'') [Some ''id''],
        (1, [NsCalled (Named ''get'') [Some ''id''] ''id'']))"
  "withRetry_invoke mockNsOp mockNamespace (Named ''idFromName'') [Some ''a'', Some ''b''] (0, [])
     = (Forwarded ''a'', (1, [NsCalled (Named ''idFromName'') [Some ''a'', Some ''b''] ''a'']))"
  by (simp_all add: withRetry_invoke_def withRetry_get_def underlying_call_def mockNamespace_def
        mockNsOp_def parameter_def Let_def)

text \<open>
  Claim C8. Reading a member of a wrapped handle that is not a function returns the
  underlying value itself, and not a retrying function. A function of the wrapped
  namespace other than \<^verbatim>\<open>get\<close>, \<^verbatim>\<open>getByName\<close> and \<^verbatim>\<open>jurisdiction\<close> (such as
  \<^verbatim>\<open>idFromName\<close>, \<^verbatim>\<open>idFromString\<close>, \<^verbatim>\<open>newUniqueId\<close>), invoked on the wrapper,
  calls the underlying operation exactly once, with the same arguments, and returns its
  result unmodified: the record grows by that one call and the world is the one the
  underlying operation left. Both renditions of the module have these two traps.
\<close>

theorem passthrough:
  "(target p = NonCallable d \<longrightarrow> createStubProxy_get target p = Passed (NonCallable d))
   \<and> (namespace k = Callable
        \<and> k \<noteq> Named ''get'' \<and> k \<noteq> Named ''getByName'' \<and> k \<noteq> Named ''jurisdiction''
        \<and> nsOp k args w = (r, w')
      \<longrightarrow> withRetry_invoke nsOp namespace k args (w, history)
            = (Forwarded r, (w', history @ [NsCalled k args r])))"
  by (simp add: createStubProxy_get_def withRetry_invoke_def withRetry_get_def underlying_call_def)

theorem passthrough_witness:
  "mockStub (Named ''name'') = NonCallable (JStr ''test-stub'')
   \<and> createStubProxy_get mockStub (Named ''name'') = Passed (NonCallable (JStr ''test-stub''))
   \<and> mockNamespace (Named ''idFromName'') = Callable
   \<and> Named ''idFromName'' \<noteq> Named ''get'' \<and> Named ''idFromName'' \<noteq> Named ''getByName''
   \<and> Named ''idFromName'' \<noteq> Named ''jurisdiction''
   \<and> mockNsOp (Named ''idFromName'') [Some ''test-name''] 0 = (''test-name'', 1)
   \<and> withRetry_invoke mockNsOp mockNamespace (Named ''idFromName'') [Some ''test-name''] (0, [])
        = (Forwarded ''test-name'', (1, [] @ [NsCalled (Named ''idFromName'') [Some ''test-name''] ''test-name'']))"
proof -
  have a: "mockStub (Named ''name'') = NonCallable (JStr ''test-stub'')"
    by (simp add: mockStub_def)
  have b: "mockNamespace (Named ''idFromName'') = Callable
   \<and> Named ''idFromName'' \<noteq> Named ''get'' \<and> Named ''idFromName'' \<noteq> Named ''getByName''
   \<and> Named ''idFromName'' \<noteq> Named ''jurisdiction''
   \<and> mockNsOp (Named ''idFromName'') [Some ''test-name''] 0 = (''test-name'', 1)"
    by (simp add: mockNamespace_def mockNsOp_def parameter_def)
  note t = passthrough[where target = mockStub and p = "Named ''name''" and d = "JStr ''test-stub''"
      and namespace = mockNamespace and k = "Named ''idFromName''" and nsOp = mockNsOp
      and args = "[Some ''test-name'']" and w = 0 and r = "''test-name''" and w' = 1 and history = "[]"]
  have c: "createStubProxy_get mockStub (Named ''name'') = Passed (NonCallable (JStr ''test-stub''))"
    by (rule conjunct1[OF t, rule_format, OF a])
  have d: "withRetry_invoke mockNsOp mockNamespace (Named ''idFromName'') [Some ''test-name''] (0, [])
        = (Forwarded ''test-name'', (1, [] @ [NsCalled (Named ''idFromName'') [Some ''test-name''] ''test-name'']))"
    by (rule conjunct2[OF t, rule_format, OF b])
  from a b c d show ?thesis by simp
qed

end
